theory Spec2Isabelle
  imports Main "HOL-Library.Word"
begin

section \<open>Data model of the ingestion engine\<close>

text \<open>
  The engine is \<^verbatim>\<open>LocationReaders\<close> in
  \<^verbatim>\<open>plugins/catalog-backend/src/ingestion/LocationReaders.ts\<close>.
  A \<^verbatim>\<open>LocationSpec\<close> is a pair of strings, an entity is an opaque payload with the
  two string fields the engine reads (\<^verbatim>\<open>kind\<close>, \<^verbatim>\<open>apiVersion\<close>), raw data is a
  buffer of bytes.
\<close>

record LocationSpec =
  ltype :: string
  target :: string

record Entity =
  apiVersion :: string
  kind :: string
  payload :: string

type_synonym bytes = "8 word list"

text \<open>
  Errors are JavaScript error objects: a class name and a message. The three classes are
  the ones the result helpers of \<^verbatim>\<open>./processors/results\<close> construct.
\<close>

datatype error = Error string | InputError string | NotFoundError string

text \<open>
  A value thrown by a processor hook. The engine looks at a caught value only through
  the template literal \<^verbatim>\<open>${e}\<close>, so a value is represented by what that conversion
  does: \<open>Thrown s\<close> is a value that the conversion turns into the text \<open>s\<close> (an error
  object, a string, \<^verbatim>\<open>null\<close>); \<open>Unconvertible x\<close> is a value for which the
  conversion itself throws \<open>x\<close> (a \<^verbatim>\<open>Symbol\<close> or an object without a usable
  \<^verbatim>\<open>toString\<close>, for which \<open>x\<close> is a \<^verbatim>\<open>TypeError\<close>; an object whose
  \<^verbatim>\<open>toString\<close> throws \<open>x\<close>).
\<close>

datatype thrown = Thrown string | Unconvertible thrown

text \<open>The tagged union \<^verbatim>\<open>LocationProcessorResult\<close>: one unit of pending work.\<close>

datatype LocationProcessorResult =
    LocationResult LocationSpec bool
  | DataResult LocationSpec bytes
  | EntityResult LocationSpec Entity
  | ErrorResult LocationSpec error

text \<open>
  Modelled from the spec: the result helpers \<^verbatim>\<open>result.location\<close>,
  \<^verbatim>\<open>result.generalError\<close> and \<^verbatim>\<open>result.inputError\<close> of
  \<^verbatim>\<open>./processors/results\<close> are not part of the sources at hand. They build the
  corresponding variant; a general error wraps a plain \<^verbatim>\<open>Error\<close>, an input error
  is the unhandled-input class.
\<close>

definition location :: "LocationSpec \<Rightarrow> bool \<Rightarrow> LocationProcessorResult" where
  "location newLocation optional = LocationResult newLocation optional"

definition generalError :: "LocationSpec \<Rightarrow> string \<Rightarrow> LocationProcessorResult" where
  "generalError atLocation message = ErrorResult atLocation (Error message)"

definition inputError :: "LocationSpec \<Rightarrow> string \<Rightarrow> LocationProcessorResult" where
  "inputError atLocation message = ErrorResult atLocation (InputError message)"

text \<open>
  A hook receives the \<^verbatim>\<open>emit\<close> callback; what it does with it is the list of items
  it emitted, in order, up to the moment it returned or threw. The outcome of the
  call is the returned value (\<open>Inr\<close>) or the thrown one (\<open>Inl\<close>).
\<close>

type_synonym 'a hook_result = "LocationProcessorResult list \<times> (thrown + 'a)"

text \<open>
  A \<^verbatim>\<open>LocationProcessor\<close>: each of the four hooks is optional. The field
  \<open>constructor_name\<close> is \<^verbatim>\<open>processor.constructor.name\<close>.
\<close>

record LocationProcessor =
  constructor_name :: string
  readLocation :: "(LocationSpec \<Rightarrow> bool \<Rightarrow> bool hook_result) option"
  parseData :: "(bytes \<Rightarrow> LocationSpec \<Rightarrow> bool hook_result) option"
  processEntity :: "(Entity \<Rightarrow> LocationSpec \<Rightarrow> Entity hook_result) option"
  handleError_hook :: "(error \<Rightarrow> LocationSpec \<Rightarrow> unit hook_result) option"

text \<open>
  The engine instance: the processor chain and the rules enforcer. The class
  \<^verbatim>\<open>CatalogRulesEnforcer\<close> is not part of the sources at hand, so its
  \<^verbatim>\<open>isAllowed\<close> is a parameter of the engine.
\<close>

record LocationReaders =
  processors :: "LocationProcessor list"
  isAllowed :: "Entity \<Rightarrow> LocationSpec \<Rightarrow> bool"

record ReadLocationResult =
  entities :: "(Entity \<times> LocationSpec) list"
  errors :: "(LocationSpec \<times> error) list"

datatype log_entry = Debug string | Warn string

text \<open>A hook invocation: which processor, which hook, on which arguments.\<close>

datatype hook_call =
    CallReadLocation string LocationSpec bool
  | CallParseData string bytes LocationSpec
  | CallProcessEntity string Entity LocationSpec
  | CallHandleError string error LocationSpec

text \<open>
  The state of one \<^verbatim>\<open>read\<close> call: the accumulating \<^verbatim>\<open>output\<close> (field \<open>out\<close>), the
  \<open>newItems\<close> buffer that \<^verbatim>\<open>emit\<close> pushes to, and what reached the logger.
  Two fields are history only and are never read by the engine: \<open>calls\<close> lists the
  hook invocations made so far, \<open>rounds\<close> lists the pending list of every round
  started so far.
\<close>

record read_state =
  out :: ReadLocationResult
  newItems :: "LocationProcessorResult list"
  logged :: "log_entry list"
  calls :: "hook_call list"
  rounds :: "LocationProcessorResult list list"

text \<open>
  An exception that escapes a method of the engine: the value thrown, and the state of
  the call at that moment (what had been accumulated, emitted, logged and invoked). A
  method of the engine returns its result (\<open>Inr\<close>) or raises (\<open>Inl\<close>).
\<close>

type_synonym raised = "thrown \<times> read_state"

section \<open>String conversions of template literals\<close>

definition digit_char :: "nat \<Rightarrow> char" where
  "digit_char d = ''0123456789'' ! d"

fun show_nat :: "nat \<Rightarrow> string" where
  "show_nat n = (if n < 10 then [digit_char n] else show_nat (n div 10) @ [digit_char (n mod 10)])"

declare show_nat.simps [simp del]

definition show_bool :: "bool \<Rightarrow> string" where
  "show_bool b = (if b then ''true'' else ''false'')"

text \<open>\<^verbatim>\<open>Error.prototype.toString\<close>: the name, then the message when there is one.\<close>

fun error_name :: "error \<Rightarrow> string" where
  "error_name (Error m) = ''Error''"
| "error_name (InputError m) = ''InputError''"
| "error_name (NotFoundError m) = ''NotFoundError''"

fun error_message :: "error \<Rightarrow> string" where
  "error_message (Error m) = m"
| "error_message (InputError m) = m"
| "error_message (NotFoundError m) = m"

definition show_error :: "error \<Rightarrow> string" where
  "show_error e = (if error_message e = [] then error_name e
                   else error_name e @ '': '' @ error_message e)"

text \<open>The template literal \<^verbatim>\<open>${e}\<close> on a caught value: the text, or what it throws.\<close>

fun show_thrown :: "thrown \<Rightarrow> thrown + string" where
  "show_thrown (Thrown s) = Inr s"
| "show_thrown (Unconvertible x) = Inl x"

section \<open>The engine\<close>

definition MAX_DEPTH :: nat where
  "MAX_DEPTH = 10"

definition emit :: "LocationProcessorResult \<Rightarrow> read_state \<Rightarrow> read_state" where
  "emit i st = st\<lparr>newItems := newItems st @ [i]\<rparr>"

definition logger_debug :: "string \<Rightarrow> read_state \<Rightarrow> read_state" where
  "logger_debug m st = st\<lparr>logged := logged st @ [Debug m]\<rparr>"

definition logger_warn :: "string \<Rightarrow> read_state \<Rightarrow> read_state" where
  "logger_warn m st = st\<lparr>logged := logged st @ [Warn m]\<rparr>"

text \<open>
  Awaiting a hook: the call is recorded, the items the hook emitted are pushed to
  \<open>newItems\<close>, and the outcome is handed to the surrounding \<^verbatim>\<open>try\<close>.
\<close>

definition invoke :: "hook_call \<Rightarrow> 'a hook_result \<Rightarrow> read_state \<Rightarrow> (thrown + 'a) \<times> read_state" where
  "invoke c r st = (snd r, st\<lparr>newItems := newItems st @ fst r, calls := calls st @ [c]\<rparr>)"

subsection \<open>handleLocation\<close>

text \<open>The message of the \<^verbatim>\<open>catch\<close> block, from the text \<^verbatim>\<open>${e}\<close> has yielded.\<close>

definition readLocation_threw :: "LocationProcessor \<Rightarrow> LocationSpec \<Rightarrow> string \<Rightarrow> string" where
  "readLocation_threw processor loc text =
     ''Processor '' @ constructor_name processor @ '' threw an error while reading location ''
       @ ltype loc @ '' '' @ target loc @ '', '' @ text"

text \<open>
  The \<^verbatim>\<open>for\<close> loop of \<^verbatim>\<open>handleLocation\<close>. The boolean tells whether the loop left
  the method through \<^verbatim>\<open>return\<close> (a hook signalled that it handled the location). The
  \<^verbatim>\<open>catch\<close> block builds its message outside any \<^verbatim>\<open>try\<close>: when the conversion of the
  caught value throws, that exception escapes the method.
\<close>

fun handleLocation_loop ::
  "LocationProcessor list \<Rightarrow> LocationSpec \<Rightarrow> bool \<Rightarrow> read_state \<Rightarrow> raised + bool \<times> read_state" where
  "handleLocation_loop [] loc optional st = Inr (False, st)"
| "handleLocation_loop (processor # rest) loc optional st =
     (case readLocation processor of
        None \<Rightarrow> handleLocation_loop rest loc optional st
      | Some hook \<Rightarrow>
          (case invoke (CallReadLocation (constructor_name processor) loc optional)
                       (hook loc optional) st of
             (Inr True, st') \<Rightarrow> Inr (True, st')
           | (Inr False, st') \<Rightarrow> handleLocation_loop rest loc optional st'
           | (Inl e, st') \<Rightarrow>
               (case show_thrown e of
                  Inl x \<Rightarrow> Inl (x, st')
                | Inr text \<Rightarrow>
                    handleLocation_loop rest loc optional
                      (emit (generalError loc (readLocation_threw processor loc text)) st'))))"

definition reading_location :: "LocationSpec \<Rightarrow> bool \<Rightarrow> string" where
  "reading_location loc optional =
     ''Reading location '' @ ltype loc @ '' '' @ target loc @ '' optional='' @ show_bool optional"

definition no_processor_read :: "LocationSpec \<Rightarrow> string" where
  "no_processor_read loc =
     ''No processor was able to read location '' @ ltype loc @ '' '' @ target loc"

definition handleLocation ::
  "LocationReaders \<Rightarrow> LocationSpec \<Rightarrow> bool \<Rightarrow> read_state \<Rightarrow> raised + read_state" where
  "handleLocation this loc optional st =
     (case handleLocation_loop (processors this) loc optional
             (logger_debug (reading_location loc optional) st) of
        Inl r \<Rightarrow> Inl r
      | Inr (returned, st2) \<Rightarrow>
          Inr (if returned then st2
               else emit (inputError loc (no_processor_read loc)) st2))"

subsection \<open>handleData\<close>

definition parseData_threw :: "LocationProcessor \<Rightarrow> LocationSpec \<Rightarrow> string \<Rightarrow> string" where
  "parseData_threw processor loc text =
     ''Processor '' @ constructor_name processor @ '' threw an error while parsing ''
       @ ltype loc @ '' '' @ target loc @ '', '' @ text"

fun handleData_loop ::
  "LocationProcessor list \<Rightarrow> bytes \<Rightarrow> LocationSpec \<Rightarrow> read_state \<Rightarrow> raised + bool \<times> read_state" where
  "handleData_loop [] d loc st = Inr (False, st)"
| "handleData_loop (processor # rest) d loc st =
     (case parseData processor of
        None \<Rightarrow> handleData_loop rest d loc st
      | Some hook \<Rightarrow>
          (case invoke (CallParseData (constructor_name processor) d loc) (hook d loc) st of
             (Inr True, st') \<Rightarrow> Inr (True, st')
           | (Inr False, st') \<Rightarrow> handleData_loop rest d loc st'
           | (Inl e, st') \<Rightarrow>
               (case show_thrown e of
                  Inl x \<Rightarrow> Inl (x, st')
                | Inr text \<Rightarrow>
                    handleData_loop rest d loc
                      (emit (generalError loc (parseData_threw processor loc text)) st'))))"

definition parsing_data :: "LocationSpec \<Rightarrow> bytes \<Rightarrow> string" where
  "parsing_data loc d =
     ''Parsing data from location '' @ ltype loc @ '' '' @ target loc
       @ '' ('' @ show_nat (length d) @ '' bytes)''"

definition no_processor_parse :: "LocationSpec \<Rightarrow> string" where
  "no_processor_parse loc =
     ''No processor was able to parse location '' @ ltype loc @ '' '' @ target loc"

definition handleData ::
  "LocationReaders \<Rightarrow> LocationSpec \<Rightarrow> bytes \<Rightarrow> read_state \<Rightarrow> raised + read_state" where
  "handleData this loc d st =
     (case handleData_loop (processors this) d loc (logger_debug (parsing_data loc d) st) of
        Inl r \<Rightarrow> Inl r
      | Inr (returned, st2) \<Rightarrow>
          Inr (if returned then st2
               else emit (inputError loc (no_processor_parse loc)) st2))"

subsection \<open>handleEntity\<close>

definition processEntity_threw :: "LocationProcessor \<Rightarrow> LocationSpec \<Rightarrow> string \<Rightarrow> string" where
  "processEntity_threw processor loc text =
     ''Processor '' @ constructor_name processor @ '' threw an error while processing entity at ''
       @ ltype loc @ '' '' @ target loc @ '', '' @ text"

text \<open>The loop of \<^verbatim>\<open>handleEntity\<close>, threading the variable \<^verbatim>\<open>current\<close>.\<close>

fun handleEntity_loop ::
  "LocationProcessor list \<Rightarrow> LocationSpec \<Rightarrow> Entity \<Rightarrow> read_state \<Rightarrow> raised + Entity \<times> read_state" where
  "handleEntity_loop [] loc current st = Inr (current, st)"
| "handleEntity_loop (processor # rest) loc current st =
     (case processEntity processor of
        None \<Rightarrow> handleEntity_loop rest loc current st
      | Some hook \<Rightarrow>
          (case invoke (CallProcessEntity (constructor_name processor) current loc)
                       (hook current loc) st of
             (Inr entity, st') \<Rightarrow> handleEntity_loop rest loc entity st'
           | (Inl e, st') \<Rightarrow>
               (case show_thrown e of
                  Inl x \<Rightarrow> Inl (x, st')
                | Inr text \<Rightarrow>
                    handleEntity_loop rest loc current
                      (emit (generalError loc (processEntity_threw processor loc text)) st'))))"

definition got_entity :: "LocationSpec \<Rightarrow> Entity \<Rightarrow> string" where
  "got_entity loc entity =
     ''Got entity at location '' @ ltype loc @ '' '' @ target loc @ '', ''
       @ apiVersion entity @ '' '' @ kind entity"

definition handleEntity ::
  "LocationReaders \<Rightarrow> LocationSpec \<Rightarrow> Entity \<Rightarrow> read_state \<Rightarrow> raised + Entity \<times> read_state" where
  "handleEntity this loc entity st =
     handleEntity_loop (processors this) loc entity (logger_debug (got_entity loc entity) st)"

subsection \<open>handleError\<close>

definition handleError_threw :: "LocationProcessor \<Rightarrow> LocationSpec \<Rightarrow> string \<Rightarrow> string" where
  "handleError_threw processor loc text =
     ''Processor '' @ constructor_name processor
       @ '' threw an error while handling another error at ''
       @ ltype loc @ '' '' @ target loc @ '', '' @ text"

fun handleError_loop ::
  "LocationProcessor list \<Rightarrow> LocationSpec \<Rightarrow> error \<Rightarrow> read_state \<Rightarrow> raised + read_state" where
  "handleError_loop [] loc err st = Inr st"
| "handleError_loop (processor # rest) loc err st =
     (case handleError_hook processor of
        None \<Rightarrow> handleError_loop rest loc err st
      | Some hook \<Rightarrow>
          (case invoke (CallHandleError (constructor_name processor) err loc) (hook err loc) st of
             (Inr u, st') \<Rightarrow> handleError_loop rest loc err st'
           | (Inl e, st') \<Rightarrow>
               (case show_thrown e of
                  Inl x \<Rightarrow> Inl (x, st')
                | Inr text \<Rightarrow>
                    handleError_loop rest loc err
                      (emit (generalError loc (handleError_threw processor loc text)) st'))))"

definition encountered_error :: "LocationSpec \<Rightarrow> error \<Rightarrow> string" where
  "encountered_error loc err =
     ''Encountered error at location '' @ ltype loc @ '' '' @ target loc @ '', '' @ show_error err"

definition handleError ::
  "LocationReaders \<Rightarrow> LocationSpec \<Rightarrow> error \<Rightarrow> read_state \<Rightarrow> raised + read_state" where
  "handleError this loc err st =
     handleError_loop (processors this) loc err (logger_debug (encountered_error loc err) st)"

subsection \<open>read\<close>

definition push_entity :: "Entity \<times> LocationSpec \<Rightarrow> read_state \<Rightarrow> read_state" where
  "push_entity x st = st\<lparr>out := (out st)\<lparr>entities := entities (out st) @ [x]\<rparr>\<rparr>"

definition push_error :: "LocationSpec \<times> error \<Rightarrow> read_state \<Rightarrow> read_state" where
  "push_error x st = st\<lparr>out := (out st)\<lparr>errors := errors (out st) @ [x]\<rparr>\<rparr>"

definition not_allowed_message :: "Entity \<Rightarrow> LocationSpec \<Rightarrow> string" where
  "not_allowed_message entity loc =
     ''Entity of kind '' @ kind entity @ '' is not allowed from location ''
       @ target loc @ '':'' @ ltype loc"

text \<open>
  The body of the inner loop of \<^verbatim>\<open>read\<close>: the dispatch on the item's tag. An
  exception that escapes an awaited handler escapes \<^verbatim>\<open>read\<close>.
\<close>

fun process_item ::
  "LocationReaders \<Rightarrow> LocationProcessorResult \<Rightarrow> read_state \<Rightarrow> raised + read_state" where
  "process_item this (LocationResult loc optional) st = handleLocation this loc optional st"
| "process_item this (DataResult loc d) st = handleData this loc d st"
| "process_item this (EntityResult loc entity) st =
     (if isAllowed this entity loc then
        (case handleEntity this loc entity st of
           Inl r \<Rightarrow> Inl r
         | Inr (entity', st') \<Rightarrow> Inr (push_entity (entity', loc) st'))
      else Inr (push_error (loc, Error (not_allowed_message entity loc)) st))"
| "process_item this (ErrorResult loc err) st =
     (case handleError this loc err st of
        Inl r \<Rightarrow> Inl r
      | Inr st' \<Rightarrow> Inr (push_error (loc, err) st'))"

fun process_items ::
  "LocationReaders \<Rightarrow> LocationProcessorResult list \<Rightarrow> read_state \<Rightarrow> raised + read_state" where
  "process_items this [] st = Inr st"
| "process_items this (item # rest) st =
     (case process_item this item st of
        Inl r \<Rightarrow> Inl r
      | Inr st' \<Rightarrow> process_items this rest st')"

definition max_depth_message :: "LocationSpec \<Rightarrow> string" where
  "max_depth_message loc =
     ''Max recursion depth '' @ show_nat MAX_DEPTH @ '' reached for ''
       @ ltype loc @ '' '' @ target loc"

text \<open>
  The outer loop of \<^verbatim>\<open>read\<close>, from the value \<open>depth\<close> of its counter on. A round
  starts with a fresh \<open>newItems\<close>; when the loop condition fails the state still
  holds, in \<open>newItems\<close>, the items that will never be processed.
\<close>

function read_loop ::
  "LocationReaders \<Rightarrow> LocationSpec \<Rightarrow> nat \<Rightarrow> LocationProcessorResult list \<Rightarrow> read_state
     \<Rightarrow> raised + read_state" where
  "read_loop this loc depth items st =
     (if depth < MAX_DEPTH then
        (case process_items this items (st\<lparr>newItems := [], rounds := rounds st @ [items]\<rparr>) of
           Inl r \<Rightarrow> Inl r
         | Inr st' \<Rightarrow>
             if length (newItems st') = 0 then Inr st'
             else read_loop this loc (depth + 1) (newItems st') st')
      else Inr (push_error (loc, Error (max_depth_message loc))
                  (logger_warn (max_depth_message loc) st)))"
  by pat_completeness auto
termination
  by (relation "measure (\<lambda>(this, loc, depth, items, st). MAX_DEPTH - depth)") auto

declare read_loop.simps [simp del]

definition initial_state :: read_state where
  "initial_state =
     \<lparr>out = \<lparr>entities = [], errors = []\<rparr>, newItems = [], logged = [], calls = [], rounds = []\<rparr>"

text \<open>
  \<open>read_run\<close> is the whole effect of a call of \<^verbatim>\<open>read\<close>; \<open>read\<close> is what the caller
  gets: the returned \<^verbatim>\<open>output\<close>, or the exception the call raises.
\<close>

definition read_run :: "LocationReaders \<Rightarrow> LocationSpec \<Rightarrow> raised + read_state" where
  "read_run this loc = read_loop this loc 0 [location loc False] initial_state"

definition read :: "LocationReaders \<Rightarrow> LocationSpec \<Rightarrow> thrown + ReadLocationResult" where
  "read this loc =
     (case read_run this loc of
        Inl (x, st) \<Rightarrow> Inl x
      | Inr st \<Rightarrow> Inr (out st))"

section \<open>Views of the state used in the statements\<close>

text \<open>
  How a method of the engine ended: \<open>returned\<close> tells whether it returned, \<open>final\<close> is
  the state of the call when it returned or raised.
\<close>

fun returned :: "'e + 'a \<Rightarrow> bool" where
  "returned (Inl r) = False"
| "returned (Inr v) = True"

fun final :: "raised + read_state \<Rightarrow> read_state" where
  "final (Inl (x, st)) = st"
| "final (Inr st) = st"

text \<open>
  Every handler only appends to the components of the state, so what a handler does is
  described by what it does to the empty state. \<open>st_append\<close> puts two such effects
  one after the other; \<open>framed st\<close> puts \<open>st\<close> before the effect of a method that
  returned or raised.
\<close>

definition st_append :: "read_state \<Rightarrow> read_state \<Rightarrow> read_state" where
  "st_append a b =
     \<lparr>out = \<lparr>entities = entities (out a) @ entities (out b),
             errors = errors (out a) @ errors (out b)\<rparr>,
      newItems = newItems a @ newItems b,
      logged = logged a @ logged b,
      calls = calls a @ calls b,
      rounds = rounds a @ rounds b\<rparr>"

fun framed :: "read_state \<Rightarrow> raised + read_state \<Rightarrow> raised + read_state" where
  "framed st (Inl (x, d)) = Inl (x, st_append st d)"
| "framed st (Inr d) = Inr (st_append st d)"

fun framed_with :: "read_state \<Rightarrow> raised + 'a \<times> read_state \<Rightarrow> raised + 'a \<times> read_state" where
  "framed_with st (Inl (x, d)) = Inl (x, st_append st d)"
| "framed_with st (Inr (v, d)) = Inr (v, st_append st d)"

text \<open>
  The effect of one round on its own, the items it emits, whether the outer loop goes
  on with another round after it (the round returned and emitted something), the
  pending lists of the rounds that \<open>n\<close> more iterations of the outer loop start, and
  whether these iterations use up the loop bound. \<open>processed\<close> is the part of a
  pending list that the inner loop gets to: all of it, unless processing an item raises.
\<close>

definition round_effect ::
  "LocationReaders \<Rightarrow> LocationProcessorResult list \<Rightarrow> raised + read_state" where
  "round_effect this items = process_items this items initial_state"

definition emitted :: "LocationReaders \<Rightarrow> LocationProcessorResult list \<Rightarrow> LocationProcessorResult list" where
  "emitted this items = newItems (final (round_effect this items))"

definition continues :: "LocationReaders \<Rightarrow> LocationProcessorResult list \<Rightarrow> bool" where
  "continues this items \<longleftrightarrow> returned (round_effect this items) \<and> emitted this items \<noteq> []"

fun rounds_from ::
  "LocationReaders \<Rightarrow> nat \<Rightarrow> LocationProcessorResult list \<Rightarrow> LocationProcessorResult list list" where
  "rounds_from this 0 items = []"
| "rounds_from this (Suc n) items =
     items # (if continues this items then rounds_from this n (emitted this items) else [])"

fun exhausted :: "LocationReaders \<Rightarrow> nat \<Rightarrow> LocationProcessorResult list \<Rightarrow> bool" where
  "exhausted this 0 items = True"
| "exhausted this (Suc n) items =
     (continues this items \<and> exhausted this n (emitted this items))"

fun processed ::
  "LocationReaders \<Rightarrow> LocationProcessorResult list \<Rightarrow> LocationProcessorResult list" where
  "processed this [] = []"
| "processed this (item # rest) =
     item # (if returned (process_item this item initial_state) then processed this rest else [])"

text \<open>
  Whether the conversion \<^verbatim>\<open>${e}\<close> of a thrown value yields a text. On the outcome of
  a hook (if the processor has the hook): \<open>outcome_ok\<close> says that the \<^verbatim>\<open>catch\<close> block,
  if it is entered, does not raise; \<open>passes\<close> says that, in a first-match chain, the
  attempt neither handles the item nor raises, so that the next processor is tried.
\<close>

fun convertible :: "thrown \<Rightarrow> bool" where
  "convertible (Thrown s) = True"
| "convertible (Unconvertible x) = False"

fun outcome_ok :: "(thrown + 'a) option \<Rightarrow> bool" where
  "outcome_ok None = True"
| "outcome_ok (Some (Inr v)) = True"
| "outcome_ok (Some (Inl e)) = convertible e"

fun passes :: "(thrown + bool) option \<Rightarrow> bool" where
  "passes None = True"
| "passes (Some (Inr handled)) = (\<not> handled)"
| "passes (Some (Inl e)) = convertible e"

text \<open>
  What trying one processor on a location item amounts to: the outcome of its hook (if
  it has one), the items the hook emitted itself, the items the attempt pushes to
  \<open>newItems\<close> (a caught exception adds the wrapped error), and the hook call made.
  The same for a data item.
\<close>

definition readLocation_outcome ::
  "LocationProcessor \<Rightarrow> LocationSpec \<Rightarrow> bool \<Rightarrow> (thrown + bool) option" where
  "readLocation_outcome p loc optional = map_option (\<lambda>hook. snd (hook loc optional)) (readLocation p)"

definition readLocation_emitted ::
  "LocationProcessor \<Rightarrow> LocationSpec \<Rightarrow> bool \<Rightarrow> LocationProcessorResult list" where
  "readLocation_emitted p loc optional =
     (case readLocation p of None \<Rightarrow> [] | Some hook \<Rightarrow> fst (hook loc optional))"

definition readLocation_items ::
  "LocationProcessor \<Rightarrow> LocationSpec \<Rightarrow> bool \<Rightarrow> LocationProcessorResult list" where
  "readLocation_items p loc optional =
     readLocation_emitted p loc optional
       @ (case readLocation_outcome p loc optional of
            Some (Inl (Thrown text)) \<Rightarrow> [generalError loc (readLocation_threw p loc text)]
          | _ \<Rightarrow> [])"

definition readLocation_calls ::
  "LocationProcessor \<Rightarrow> LocationSpec \<Rightarrow> bool \<Rightarrow> hook_call list" where
  "readLocation_calls p loc optional =
     (case readLocation p of None \<Rightarrow> []
      | Some hook \<Rightarrow> [CallReadLocation (constructor_name p) loc optional])"

definition parseData_outcome ::
  "LocationProcessor \<Rightarrow> bytes \<Rightarrow> LocationSpec \<Rightarrow> (thrown + bool) option" where
  "parseData_outcome p d loc = map_option (\<lambda>hook. snd (hook d loc)) (parseData p)"

definition parseData_emitted ::
  "LocationProcessor \<Rightarrow> bytes \<Rightarrow> LocationSpec \<Rightarrow> LocationProcessorResult list" where
  "parseData_emitted p d loc =
     (case parseData p of None \<Rightarrow> [] | Some hook \<Rightarrow> fst (hook d loc))"

definition parseData_items ::
  "LocationProcessor \<Rightarrow> bytes \<Rightarrow> LocationSpec \<Rightarrow> LocationProcessorResult list" where
  "parseData_items p d loc =
     parseData_emitted p d loc
       @ (case parseData_outcome p d loc of
            Some (Inl (Thrown text)) \<Rightarrow> [generalError loc (parseData_threw p loc text)]
          | _ \<Rightarrow> [])"

definition parseData_calls ::
  "LocationProcessor \<Rightarrow> bytes \<Rightarrow> LocationSpec \<Rightarrow> hook_call list" where
  "parseData_calls p d loc =
     (case parseData p of None \<Rightarrow> []
      | Some hook \<Rightarrow> [CallParseData (constructor_name p) d loc])"

text \<open>
  What running one processor of the entity-transform pipeline amounts to: the running
  entity after it, the items the hook emitted itself, the items pushed, the hook call
  made, and the outcome of the hook. \<open>pipeline_items\<close> and \<open>pipeline_calls\<close> collect
  these along a chain; \<open>pipeline_ok\<close> says that no \<^verbatim>\<open>catch\<close> block along the chain
  raises.
\<close>

definition transform_step :: "LocationProcessor \<Rightarrow> LocationSpec \<Rightarrow> Entity \<Rightarrow> Entity" where
  "transform_step p loc current =
     (case processEntity p of
        None \<Rightarrow> current
      | Some hook \<Rightarrow> (case snd (hook current loc) of Inl e \<Rightarrow> current | Inr entity \<Rightarrow> entity))"

definition processEntity_outcome ::
  "LocationProcessor \<Rightarrow> Entity \<Rightarrow> LocationSpec \<Rightarrow> (thrown + Entity) option" where
  "processEntity_outcome p current loc = map_option (\<lambda>hook. snd (hook current loc)) (processEntity p)"

definition processEntity_emitted ::
  "LocationProcessor \<Rightarrow> LocationSpec \<Rightarrow> Entity \<Rightarrow> LocationProcessorResult list" where
  "processEntity_emitted p loc current =
     (case processEntity p of None \<Rightarrow> [] | Some hook \<Rightarrow> fst (hook current loc))"

definition processEntity_items ::
  "LocationProcessor \<Rightarrow> LocationSpec \<Rightarrow> Entity \<Rightarrow> LocationProcessorResult list" where
  "processEntity_items p loc current =
     processEntity_emitted p loc current
       @ (case processEntity_outcome p current loc of
            Some (Inl (Thrown text)) \<Rightarrow> [generalError loc (processEntity_threw p loc text)]
          | _ \<Rightarrow> [])"

definition processEntity_calls ::
  "LocationProcessor \<Rightarrow> LocationSpec \<Rightarrow> Entity \<Rightarrow> hook_call list" where
  "processEntity_calls p loc current =
     (case processEntity p of None \<Rightarrow> []
      | Some hook \<Rightarrow> [CallProcessEntity (constructor_name p) current loc])"

fun pipeline_items ::
  "LocationProcessor list \<Rightarrow> LocationSpec \<Rightarrow> Entity \<Rightarrow> LocationProcessorResult list" where
  "pipeline_items [] loc current = []"
| "pipeline_items (p # rest) loc current =
     processEntity_items p loc current @ pipeline_items rest loc (transform_step p loc current)"

fun pipeline_calls :: "LocationProcessor list \<Rightarrow> LocationSpec \<Rightarrow> Entity \<Rightarrow> hook_call list" where
  "pipeline_calls [] loc current = []"
| "pipeline_calls (p # rest) loc current =
     processEntity_calls p loc current @ pipeline_calls rest loc (transform_step p loc current)"

fun pipeline_ok :: "LocationProcessor list \<Rightarrow> LocationSpec \<Rightarrow> Entity \<Rightarrow> bool" where
  "pipeline_ok [] loc current = True"
| "pipeline_ok (p # rest) loc current =
     (outcome_ok (processEntity_outcome p current loc)
      \<and> pipeline_ok rest loc (transform_step p loc current))"

text \<open>The same views for the \<^verbatim>\<open>handleError\<close> hook, which every capable processor runs.\<close>

definition handleError_outcome ::
  "LocationProcessor \<Rightarrow> error \<Rightarrow> LocationSpec \<Rightarrow> (thrown + unit) option" where
  "handleError_outcome p err loc = map_option (\<lambda>hook. snd (hook err loc)) (handleError_hook p)"

definition handleError_emitted ::
  "LocationProcessor \<Rightarrow> error \<Rightarrow> LocationSpec \<Rightarrow> LocationProcessorResult list" where
  "handleError_emitted p err loc =
     (case handleError_hook p of None \<Rightarrow> [] | Some hook \<Rightarrow> fst (hook err loc))"

definition handleError_items ::
  "LocationProcessor \<Rightarrow> error \<Rightarrow> LocationSpec \<Rightarrow> LocationProcessorResult list" where
  "handleError_items p err loc =
     handleError_emitted p err loc
       @ (case handleError_outcome p err loc of
            Some (Inl (Thrown text)) \<Rightarrow> [generalError loc (handleError_threw p loc text)]
          | _ \<Rightarrow> [])"

definition handleError_calls ::
  "LocationProcessor \<Rightarrow> error \<Rightarrow> LocationSpec \<Rightarrow> hook_call list" where
  "handleError_calls p err loc =
     (case handleError_hook p of None \<Rightarrow> []
      | Some hook \<Rightarrow> [CallHandleError (constructor_name p) err loc])"

text \<open>
  A processor none of whose hooks ever throws a value that has no text: whatever the
  arguments, no \<^verbatim>\<open>catch\<close> block of the engine raises on what this processor throws.
\<close>

definition throws_convertible :: "LocationProcessor \<Rightarrow> bool" where
  "throws_convertible p =
     ((\<forall>loc optional. outcome_ok (readLocation_outcome p loc optional))
      \<and> (\<forall>d loc. outcome_ok (parseData_outcome p d loc))
      \<and> (\<forall>entity loc. outcome_ok (processEntity_outcome p entity loc))
      \<and> (\<forall>err loc. outcome_ok (handleError_outcome p err loc)))"

text \<open>
  The state and the returned flag of a chain loop that returns a value next to the
  state, and what a first-match loop reports: handled, not handled, or the exception
  that escaped.
\<close>

fun final_with :: "raised + 'a \<times> read_state \<Rightarrow> read_state" where
  "final_with (Inl (x, st)) = st"
| "final_with (Inr (v, st)) = st"


text \<open>The entity a run of the pipeline returned, if it returned.\<close>

fun returned_entity :: "raised + Entity \<times> read_state \<Rightarrow> Entity option" where
  "returned_entity (Inl r) = None"
| "returned_entity (Inr (entity, st)) = Some entity"

section \<open>Example chains\<close>

text \<open>
  Small concrete engines on which the statements below are evaluated. \<open>no_hooks\<close> is a
  processor that implements none of the four hooks; the others are obtained from it.
\<close>

definition loc0 :: LocationSpec where
  "loc0 = \<lparr>ltype = ''file'', target = ''a''\<rparr>"

definition ent0 :: Entity where
  "ent0 = \<lparr>apiVersion = ''v1'', kind = ''Component'', payload = ''p''\<rparr>"

definition no_hooks :: "string \<Rightarrow> LocationProcessor" where
  "no_hooks n = \<lparr>constructor_name = n, readLocation = None, parseData = None,
                 processEntity = None, handleError_hook = None\<rparr>"

definition allow_all :: "Entity \<Rightarrow> LocationSpec \<Rightarrow> bool" where
  "allow_all entity loc = True"

text \<open>An engine whose only processor can do nothing.\<close>

definition idle_engine :: LocationReaders where
  "idle_engine = \<lparr>processors = [no_hooks ''Idle''], isAllowed = allow_all\<rparr>"



text \<open>
  A chain for first-match dispatch: one processor that declines, one without hooks, one
  that handles, and one registered after it. And a chain in which everybody declines.
\<close>

definition decliner :: LocationProcessor where
  "decliner = (no_hooks ''Decliner'')
     \<lparr>readLocation := Some (\<lambda>loc optional. ([], Inr False)),
      parseData := Some (\<lambda>d loc. ([], Inr False))\<rparr>"

definition taker :: LocationProcessor where
  "taker = (no_hooks ''Taker'')
     \<lparr>readLocation := Some (\<lambda>loc optional. ([DataResult loc [1, 2]], Inr True)),
      parseData := Some (\<lambda>d loc. ([EntityResult loc ent0], Inr True))\<rparr>"

definition latecomer :: LocationProcessor where
  "latecomer = (no_hooks ''Latecomer'')
     \<lparr>readLocation := Some (\<lambda>loc optional. ([DataResult loc [3]], Inr True)),
      parseData := Some (\<lambda>d loc. ([], Inr True))\<rparr>"

definition first_match_engine :: LocationReaders where
  "first_match_engine =
     \<lparr>processors = [decliner, no_hooks ''Idle'', taker, latecomer], isAllowed = allow_all\<rparr>"

definition declining_engine :: LocationReaders where
  "declining_engine =
     \<lparr>processors = [decliner, no_hooks ''Idle'', decliner], isAllowed = allow_all\<rparr>"

text \<open>
  Chains for the entity pipeline: a reader that emits one entity, and processors that
  rename the kind, throw, and extend the payload.
\<close>

definition emitter :: LocationProcessor where
  "emitter = (no_hooks ''Emitter'')
     \<lparr>readLocation := Some (\<lambda>loc optional. ([EntityResult loc ent0], Inr True))\<rparr>"

definition renamer :: LocationProcessor where
  "renamer = (no_hooks ''Renamer'')
     \<lparr>processEntity := Some (\<lambda>entity loc. ([], Inr (entity\<lparr>kind := ''API''\<rparr>)))\<rparr>"

definition thrower :: LocationProcessor where
  "thrower = (no_hooks ''Thrower'')
     \<lparr>processEntity := Some (\<lambda>entity loc. ([], Inl (Thrown ''Error: boom'')))\<rparr>"

definition tagger :: LocationProcessor where
  "tagger = (no_hooks ''Tagger'')
     \<lparr>processEntity := Some (\<lambda>entity loc. ([], Inr (entity\<lparr>payload := payload entity @ ''+tag''\<rparr>)))\<rparr>"

definition last_throws_engine :: LocationReaders where
  "last_throws_engine = \<lparr>processors = [emitter, renamer, thrower], isAllowed = allow_all\<rparr>"

definition middle_throws_engine :: LocationReaders where
  "middle_throws_engine =
     \<lparr>processors = [emitter, renamer, thrower, tagger], isAllowed = allow_all\<rparr>"

text \<open>
  Engines for the policy gate: the same chain under an enforcer that rejects everything
  and under one that admits everything. \<open>watcher\<close> implements \<^verbatim>\<open>handleError\<close>.
\<close>

definition watcher :: LocationProcessor where
  "watcher = (no_hooks ''Watcher'')
     \<lparr>handleError_hook := Some (\<lambda>err loc. ([], Inr ()))\<rparr>"

definition allow_none :: "Entity \<Rightarrow> LocationSpec \<Rightarrow> bool" where
  "allow_none entity loc = False"

definition denying_engine :: LocationReaders where
  "denying_engine = \<lparr>processors = [emitter, renamer, watcher], isAllowed = allow_none\<rparr>"

definition permitting_engine :: LocationReaders where
  "permitting_engine = \<lparr>processors = [emitter, renamer, watcher], isAllowed = allow_all\<rparr>"



text \<open>A processor all of whose hooks throw, between one that declines and one that handles.\<close>

definition faulty :: LocationProcessor where
  "faulty =
     \<lparr>constructor_name = ''Faulty'',
      readLocation = Some (\<lambda>loc optional. ([], Inl (Thrown ''Error: r''))),
      parseData = Some (\<lambda>d loc. ([], Inl (Thrown ''Error: r''))),
      processEntity = Some (\<lambda>entity loc. ([], Inl (Thrown ''Error: r''))),
      handleError_hook = Some (\<lambda>err loc. ([], Inl (Thrown ''Error: r'')))\<rparr>"

definition faulty_engine :: LocationReaders where
  "faulty_engine = \<lparr>processors = [decliner, faulty, taker], isAllowed = allow_all\<rparr>"





text \<open>
  A value that cannot be converted to a string, such as a \<^verbatim>\<open>Symbol\<close>: the conversion
  throws a \<^verbatim>\<open>TypeError\<close>. And a processor whose \<^verbatim>\<open>readLocation\<close> and
  \<^verbatim>\<open>processEntity\<close> throw it, in front of one that would handle the location.
\<close>

definition symbol_type_error :: thrown where
  "symbol_type_error = Thrown ''TypeError: Cannot convert a Symbol value to a string''"

definition symbol :: thrown where
  "symbol = Unconvertible symbol_type_error"

definition symbolic :: LocationProcessor where
  "symbolic = (no_hooks ''Symbolic'')
     \<lparr>readLocation := Some (\<lambda>loc optional. ([], Inl symbol)),
      processEntity := Some (\<lambda>entity loc. ([], Inl symbol))\<rparr>"

definition symbolic_engine :: LocationReaders where
  "symbolic_engine = \<lparr>processors = [symbolic, taker], isAllowed = allow_all\<rparr>"

text \<open>
  A reader that emits a location one character longer until the target has nine
  characters, and then emits an entity: the entity is processed in the tenth round. Behind
  it, the pipeline that renames, throws and tags.
\<close>

definition late :: LocationProcessor where
  "late = (no_hooks ''Late'')
     \<lparr>readLocation := Some (\<lambda>loc optional.
         if length (target loc) < 9
         then ([LocationResult (loc\<lparr>target := target loc @ ''a''\<rparr>) False], Inr True)
         else ([EntityResult loc ent0], Inr True))\<rparr>"

definition late_engine :: LocationReaders where
  "late_engine = \<lparr>processors = [late, renamer, thrower, tagger], isAllowed = allow_all\<rparr>"

section \<open>Handlers only append to the state\<close>

lemma st_append_initial_right: "st_append st initial_state = st"
  by (simp add: st_append_def initial_state_def)

lemma st_append_assoc: "st_append (st_append a b) c = st_append a (st_append b c)"
  by (simp add: st_append_def)

lemma st_append_sel:
  "entities (out (st_append a b)) = entities (out a) @ entities (out b)"
  "errors (out (st_append a b)) = errors (out a) @ errors (out b)"
  "newItems (st_append a b) = newItems a @ newItems b"
  "logged (st_append a b) = logged a @ logged b"
  "calls (st_append a b) = calls a @ calls b"
  "rounds (st_append a b) = rounds a @ rounds b"
  by (simp_all add: st_append_def)

lemma initial_state_sel:
  "entities (out initial_state) = []"
  "errors (out initial_state) = []"
  "newItems initial_state = []"
  "logged initial_state = []"
  "calls initial_state = []"
  "rounds initial_state = []"
  by (simp_all add: initial_state_def)

lemma raised_cases:
  obtains x d where "r = Inl (x, d)" | d where "r = Inr d"
  by (cases r) auto

lemma raised_with_cases:
  obtains x d where "r = Inl (x, d)" | v d where "r = Inr (v, d)"
  by (cases r) auto

lemma final_framed: "final (framed st r) = st_append st (final r)"
  by (cases r) auto

lemma returned_framed: "returned (framed st r) = returned r"
  by (cases r) auto


lemma returned_framed_with: "returned (framed_with st r) = returned r"
  by (cases r) auto


lemma emit_append: "emit i (st_append a b) = st_append a (emit i b)"
  by (simp add: emit_def st_append_def)

lemma logger_debug_append: "logger_debug m (st_append a b) = st_append a (logger_debug m b)"
  by (simp add: logger_debug_def st_append_def)

lemma push_entity_append: "push_entity x (st_append a b) = st_append a (push_entity x b)"
  by (simp add: push_entity_def st_append_def)

lemma push_error_append: "push_error x (st_append a b) = st_append a (push_error x b)"
  by (simp add: push_error_def st_append_def)

lemma invoke_append:
  "invoke c r (st_append a b) = (fst (invoke c r b), st_append a (snd (invoke c r b)))"
  by (simp add: invoke_def st_append_def)

lemma handleLocation_loop_append_state:
  "handleLocation_loop ps loc opt (st_append a b) = framed_with a (handleLocation_loop ps loc opt b)"
proof (induction ps arbitrary: b)
  case Nil
  show ?case by simp
next
  case (Cons p ps)
  show ?case
  proof (cases "readLocation p")
    case None
    then show ?thesis using Cons.IH by simp
  next
    case (Some hook)
    obtain res s where i: "invoke (CallReadLocation (constructor_name p) loc opt) (hook loc opt) b = (res, s)"
      by (cases "invoke (CallReadLocation (constructor_name p) loc opt) (hook loc opt) b")
    show ?thesis
      using Cons.IH
      by (simp add: Some invoke_append i emit_append split: sum.splits bool.splits)
  qed
qed

lemma handleData_loop_append_state:
  "handleData_loop ps d loc (st_append a b) = framed_with a (handleData_loop ps d loc b)"
proof (induction ps arbitrary: b)
  case Nil
  show ?case by simp
next
  case (Cons p ps)
  show ?case
  proof (cases "parseData p")
    case None
    then show ?thesis using Cons.IH by simp
  next
    case (Some hook)
    obtain res s where i: "invoke (CallParseData (constructor_name p) d loc) (hook d loc) b = (res, s)"
      by (cases "invoke (CallParseData (constructor_name p) d loc) (hook d loc) b")
    show ?thesis
      using Cons.IH
      by (simp add: Some invoke_append i emit_append split: sum.splits bool.splits)
  qed
qed

lemma handleEntity_loop_append_state:
  "handleEntity_loop ps loc cur (st_append a b) = framed_with a (handleEntity_loop ps loc cur b)"
proof (induction ps arbitrary: cur b)
  case Nil
  show ?case by simp
next
  case (Cons p ps)
  show ?case
  proof (cases "processEntity p")
    case None
    then show ?thesis using Cons.IH by simp
  next
    case (Some hook)
    obtain res s where i: "invoke (CallProcessEntity (constructor_name p) cur loc) (hook cur loc) b = (res, s)"
      by (cases "invoke (CallProcessEntity (constructor_name p) cur loc) (hook cur loc) b")
    show ?thesis
      using Cons.IH
      by (simp add: Some invoke_append i emit_append split: sum.splits)
  qed
qed

lemma handleError_loop_append_state:
  "handleError_loop ps loc err (st_append a b) = framed a (handleError_loop ps loc err b)"
proof (induction ps arbitrary: b)
  case Nil
  show ?case by simp
next
  case (Cons p ps)
  show ?case
  proof (cases "handleError_hook p")
    case None
    then show ?thesis using Cons.IH by simp
  next
    case (Some hook)
    obtain res s where i: "invoke (CallHandleError (constructor_name p) err loc) (hook err loc) b = (res, s)"
      by (cases "invoke (CallHandleError (constructor_name p) err loc) (hook err loc) b")
    show ?thesis
      using Cons.IH
      by (simp add: Some invoke_append i emit_append split: sum.splits)
  qed
qed

lemma handleLocation_append_state:
  "handleLocation this loc opt (st_append a b) = framed a (handleLocation this loc opt b)"
  by (cases "handleLocation_loop (processors this) loc opt (logger_debug (reading_location loc opt) b)"
        rule: raised_with_cases)
     (simp_all add: handleLocation_def logger_debug_append handleLocation_loop_append_state emit_append)

lemma handleData_append_state:
  "handleData this loc d (st_append a b) = framed a (handleData this loc d b)"
  by (cases "handleData_loop (processors this) d loc (logger_debug (parsing_data loc d) b)"
        rule: raised_with_cases)
     (simp_all add: handleData_def logger_debug_append handleData_loop_append_state emit_append)

lemma handleEntity_append_state:
  "handleEntity this loc entity (st_append a b) = framed_with a (handleEntity this loc entity b)"
  by (simp add: handleEntity_def logger_debug_append handleEntity_loop_append_state)

lemma handleError_append_state:
  "handleError this loc err (st_append a b) = framed a (handleError this loc err b)"
  by (simp add: handleError_def logger_debug_append handleError_loop_append_state)

lemma process_item_append_state:
  "process_item this item (st_append a b) = framed a (process_item this item b)"
proof (cases item)
  case (LocationResult loc opt)
  then show ?thesis by (simp add: handleLocation_append_state)
next
  case (DataResult loc d)
  then show ?thesis by (simp add: handleData_append_state)
next
  case (EntityResult loc entity)
  show ?thesis
    by (cases "handleEntity this loc entity b" rule: raised_with_cases)
       (simp_all add: EntityResult handleEntity_append_state push_entity_append push_error_append)
next
  case (ErrorResult loc err)
  show ?thesis
    by (cases "handleError this loc err b" rule: raised_cases)
       (simp_all add: ErrorResult handleError_append_state push_error_append)
qed

lemma framed_framed: "framed a (framed b r) = framed (st_append a b) r"
  by (cases r rule: raised_cases) (simp_all add: st_append_assoc)

lemma process_items_append_state:
  "process_items this items (st_append a b) = framed a (process_items this items b)"
proof (induction items arbitrary: b)
  case Nil
  show ?case by simp
next
  case (Cons item items)
  show ?case
    using Cons.IH
    by (cases "process_item this item b" rule: raised_cases)
       (simp_all add: process_item_append_state)
qed

lemma process_item_frame:
  "process_item this item st = framed st (process_item this item initial_state)"
  using process_item_append_state [of this item st initial_state]
  by (simp add: st_append_initial_right)

lemma process_items_frame:
  "process_items this items st = framed st (round_effect this items)"
  using process_items_append_state [of this items st initial_state]
  by (simp add: st_append_initial_right round_effect_def)



lemma handleLocation_frame:
  "handleLocation this loc opt st = framed st (handleLocation this loc opt initial_state)"
  using handleLocation_append_state [of this loc opt st initial_state]
  by (simp add: st_append_initial_right)

lemma handleData_frame:
  "handleData this loc d st = framed st (handleData this loc d initial_state)"
  using handleData_append_state [of this loc d st initial_state]
  by (simp add: st_append_initial_right)

section \<open>A round, item by item\<close>

lemma round_effect_Nil: "round_effect this [] = Inr initial_state"
  by (simp add: round_effect_def)

lemma round_effect_Cons:
  "round_effect this (item # items)
     = (case process_item this item initial_state of
          Inl r \<Rightarrow> Inl r
        | Inr d \<Rightarrow> framed d (round_effect this items))"
proof (cases "process_item this item initial_state")
  case (Inl r)
  then show ?thesis by (simp add: round_effect_def)
next
  case (Inr d)
  show ?thesis
    using process_items_frame [of this items d] by (simp add: round_effect_def Inr)
qed

lemma round_effect_returned:
  "returned (round_effect this items)
     \<longleftrightarrow> (\<forall>item\<in>set items. returned (process_item this item initial_state))"
proof (induction items)
  case Nil
  show ?case by (simp add: round_effect_Nil)
next
  case (Cons item items)
  then show ?case
    by (cases "process_item this item initial_state")
       (simp_all add: round_effect_Cons returned_framed)
qed

lemma processed_all:
  "returned (round_effect this items) \<Longrightarrow> processed this items = items"
  by (induction items) (simp_all add: round_effect_returned)

lemma round_effect_newItems:
  "newItems (final (round_effect this items))
     = concat (map (\<lambda>item. newItems (final (process_item this item initial_state)))
                   (processed this items))"
proof (induction items)
  case Nil
  show ?case by (simp add: round_effect_Nil initial_state_sel)
next
  case (Cons item items)
  then show ?case
    by (cases "process_item this item initial_state" rule: raised_cases)
       (simp_all add: round_effect_Cons final_framed st_append_sel)
qed

lemma round_effect_entities:
  "entities (out (final (round_effect this items)))
     = concat (map (\<lambda>item. entities (out (final (process_item this item initial_state))))
                   (processed this items))"
proof (induction items)
  case Nil
  show ?case by (simp add: round_effect_Nil initial_state_sel)
next
  case (Cons item items)
  then show ?case
    by (cases "process_item this item initial_state" rule: raised_cases)
       (simp_all add: round_effect_Cons final_framed st_append_sel)
qed

lemma round_effect_errors:
  "errors (out (final (round_effect this items)))
     = concat (map (\<lambda>item. errors (out (final (process_item this item initial_state))))
                   (processed this items))"
proof (induction items)
  case Nil
  show ?case by (simp add: round_effect_Nil initial_state_sel)
next
  case (Cons item items)
  then show ?case
    by (cases "process_item this item initial_state" rule: raised_cases)
       (simp_all add: round_effect_Cons final_framed st_append_sel)
qed

lemma emitted_concat:
  "emitted this items
     = concat (map (\<lambda>item. newItems (final (process_item this item initial_state)))
                   (processed this items))"
  by (simp add: emitted_def round_effect_newItems)

lemma emitted_member:
  "returned (round_effect this items) \<Longrightarrow> item \<in> set items \<Longrightarrow>
   x \<in> set (newItems (final (process_item this item initial_state))) \<Longrightarrow>
   x \<in> set (emitted this items)"
  by (auto simp: emitted_concat processed_all)

section \<open>The outer loop, round by round\<close>

lemma read_loop_done:
  "MAX_DEPTH \<le> depth \<Longrightarrow>
     read_loop this loc depth items st =
       Inr (push_error (loc, Error (max_depth_message loc)) (logger_warn (max_depth_message loc) st))"
  by (subst read_loop.simps) simp

lemma read_loop_step:
  assumes "depth < MAX_DEPTH"
  shows "read_loop this loc depth items st =
           (if continues this items
            then read_loop this loc (Suc depth) (emitted this items)
                   (st_append (st\<lparr>newItems := [], rounds := rounds st @ [items]\<rparr>)
                      (final (round_effect this items)))
            else framed (st\<lparr>newItems := [], rounds := rounds st @ [items]\<rparr>)
                   (round_effect this items))"
proof (cases "round_effect this items" rule: raised_cases)
  case (1 x d)
  show ?thesis
    using assms by (subst read_loop.simps) (simp add: process_items_frame 1 continues_def)
next
  case (2 d)
  show ?thesis
    using assms
    by (subst read_loop.simps)
       (simp add: process_items_frame 2 emitted_def continues_def st_append_sel)
qed

lemma handleLocation_loop_keeps:
  "rounds (final_with (handleLocation_loop ps loc opt st)) = rounds st \<and>
   out (final_with (handleLocation_loop ps loc opt st)) = out st"
  by (induction ps arbitrary: st)
     (auto simp: invoke_def emit_def split: option.splits sum.splits bool.splits)

lemma handleData_loop_keeps:
  "rounds (final_with (handleData_loop ps d loc st)) = rounds st \<and>
   out (final_with (handleData_loop ps d loc st)) = out st"
  by (induction ps arbitrary: st)
     (auto simp: invoke_def emit_def split: option.splits sum.splits bool.splits)

lemma handleEntity_loop_keeps:
  "rounds (final_with (handleEntity_loop ps loc cur st)) = rounds st \<and>
   out (final_with (handleEntity_loop ps loc cur st)) = out st"
  by (induction ps arbitrary: cur st)
     (auto simp: invoke_def emit_def split: option.splits sum.splits)

lemma handleError_loop_keeps:
  "rounds (final (handleError_loop ps loc err st)) = rounds st \<and>
   out (final (handleError_loop ps loc err st)) = out st"
  by (induction ps arbitrary: st)
     (auto simp: invoke_def emit_def split: option.splits sum.splits)

lemma handleLocation_keeps:
  "rounds (final (handleLocation this loc opt st)) = rounds st \<and>
   out (final (handleLocation this loc opt st)) = out st"
  using handleLocation_loop_keeps [of "processors this" loc opt "logger_debug (reading_location loc opt) st"]
  by (cases "handleLocation_loop (processors this) loc opt (logger_debug (reading_location loc opt) st)"
        rule: raised_with_cases)
     (simp_all add: handleLocation_def logger_debug_def emit_def)

lemma handleData_keeps:
  "rounds (final (handleData this loc d st)) = rounds st \<and>
   out (final (handleData this loc d st)) = out st"
  using handleData_loop_keeps [of "processors this" d loc "logger_debug (parsing_data loc d) st"]
  by (cases "handleData_loop (processors this) d loc (logger_debug (parsing_data loc d) st)"
        rule: raised_with_cases)
     (simp_all add: handleData_def logger_debug_def emit_def)

lemma handleEntity_keeps:
  "rounds (final_with (handleEntity this loc entity st)) = rounds st \<and>
   out (final_with (handleEntity this loc entity st)) = out st"
  using handleEntity_loop_keeps [of "processors this" loc entity "logger_debug (got_entity loc entity) st"]
  by (simp add: handleEntity_def logger_debug_def)

lemma handleError_keeps:
  "rounds (final (handleError this loc err st)) = rounds st \<and>
   out (final (handleError this loc err st)) = out st"
  using handleError_loop_keeps [of "processors this" loc err "logger_debug (encountered_error loc err) st"]
  by (simp add: handleError_def logger_debug_def)

lemma process_item_rounds: "rounds (final (process_item this item st)) = rounds st"
proof (cases item)
  case (LocationResult loc opt)
  then show ?thesis by (simp add: handleLocation_keeps)
next
  case (DataResult loc d)
  then show ?thesis by (simp add: handleData_keeps)
next
  case (EntityResult loc entity)
  show ?thesis
    using handleEntity_keeps [of this loc entity st]
    by (cases "handleEntity this loc entity st" rule: raised_with_cases)
       (simp_all add: EntityResult push_entity_def push_error_def)
next
  case (ErrorResult loc err)
  show ?thesis
    using handleError_keeps [of this loc err st]
    by (cases "handleError this loc err st" rule: raised_cases)
       (simp_all add: ErrorResult push_error_def)
qed

lemma process_error_item_errors:
  "returned (process_item this (ErrorResult l err) st) \<Longrightarrow>
   errors (out (final (process_item this (ErrorResult l err) st))) = errors (out st) @ [(l, err)]"
  using handleError_keeps [of this l err st]
  by (cases "handleError this l err st" rule: raised_cases) (simp_all add: push_error_def)

lemma process_items_rounds: "rounds (final (process_items this items st)) = rounds st"
proof (induction items arbitrary: st)
  case Nil
  show ?case by simp
next
  case (Cons item items)
  show ?case
    using Cons.IH process_item_rounds [of this item st]
    by (cases "process_item this item st" rule: raised_cases) simp_all
qed

lemma round_effect_rounds: "rounds (final (round_effect this items)) = []"
  by (simp add: round_effect_def process_items_rounds initial_state_sel)

lemma read_loop_rounds:
  "depth \<le> MAX_DEPTH \<Longrightarrow>
     rounds (final (read_loop this loc depth items st))
       = rounds st @ rounds_from this (MAX_DEPTH - depth) items"
proof (induction "MAX_DEPTH - depth" arbitrary: depth items st)
  case 0
  then show ?case
    by (simp add: read_loop_done push_error_def logger_warn_def)
next
  case (Suc n)
  then have lt: "depth < MAX_DEPTH" and n: "n = MAX_DEPTH - Suc depth" and le: "Suc depth \<le> MAX_DEPTH"
    by arith+
  have m: "MAX_DEPTH - depth = Suc n"
    using Suc.hyps(2) by simp
  show ?case
    using Suc.hyps(1) [OF n le]
    by (simp add: read_loop_step [OF lt] m st_append_sel final_framed n round_effect_rounds)
qed

lemma read_loop_errors:
  "depth \<le> MAX_DEPTH \<Longrightarrow>
     errors (out (final (read_loop this loc depth items st)))
       = errors (out st)
         @ concat (map (\<lambda>i. errors (out (final (round_effect this i))))
                       (rounds_from this (MAX_DEPTH - depth) items))
         @ (if exhausted this (MAX_DEPTH - depth) items
            then [(loc, Error (max_depth_message loc))] else [])"
proof (induction "MAX_DEPTH - depth" arbitrary: depth items st)
  case 0
  then show ?case
    by (simp add: read_loop_done push_error_def logger_warn_def)
next
  case (Suc n)
  then have lt: "depth < MAX_DEPTH" and n: "n = MAX_DEPTH - Suc depth" and le: "Suc depth \<le> MAX_DEPTH"
    by arith+
  have m: "MAX_DEPTH - depth = Suc n"
    using Suc.hyps(2) by simp
  show ?case
    using Suc.hyps(1) [OF n le]
    by (simp add: read_loop_step [OF lt] m st_append_sel final_framed n)
qed

lemma read_loop_entities:
  "depth \<le> MAX_DEPTH \<Longrightarrow>
     entities (out (final (read_loop this loc depth items st)))
       = entities (out st)
         @ concat (map (\<lambda>i. entities (out (final (round_effect this i))))
                       (rounds_from this (MAX_DEPTH - depth) items))"
proof (induction "MAX_DEPTH - depth" arbitrary: depth items st)
  case 0
  then show ?case
    by (simp add: read_loop_done push_error_def logger_warn_def)
next
  case (Suc n)
  then have lt: "depth < MAX_DEPTH" and n: "n = MAX_DEPTH - Suc depth" and le: "Suc depth \<le> MAX_DEPTH"
    by arith+
  have m: "MAX_DEPTH - depth = Suc n"
    using Suc.hyps(2) by simp
  show ?case
    using Suc.hyps(1) [OF n le]
    by (simp add: read_loop_step [OF lt] m st_append_sel final_framed n)
qed

lemma read_loop_logged:
  "depth \<le> MAX_DEPTH \<Longrightarrow>
     logged (final (read_loop this loc depth items st))
       = logged st
         @ concat (map (\<lambda>i. logged (final (round_effect this i)))
                       (rounds_from this (MAX_DEPTH - depth) items))
         @ (if exhausted this (MAX_DEPTH - depth) items
            then [Warn (max_depth_message loc)] else [])"
proof (induction "MAX_DEPTH - depth" arbitrary: depth items st)
  case 0
  then show ?case
    by (simp add: read_loop_done push_error_def logger_warn_def)
next
  case (Suc n)
  then have lt: "depth < MAX_DEPTH" and n: "n = MAX_DEPTH - Suc depth" and le: "Suc depth \<le> MAX_DEPTH"
    by arith+
  have m: "MAX_DEPTH - depth = Suc n"
    using Suc.hyps(2) by simp
  show ?case
    using Suc.hyps(1) [OF n le]
    by (simp add: read_loop_step [OF lt] m st_append_sel final_framed n)
qed

lemma read_loop_calls:
  "depth \<le> MAX_DEPTH \<Longrightarrow>
     calls (final (read_loop this loc depth items st))
       = calls st
         @ concat (map (\<lambda>i. calls (final (round_effect this i)))
                       (rounds_from this (MAX_DEPTH - depth) items))"
proof (induction "MAX_DEPTH - depth" arbitrary: depth items st)
  case 0
  then show ?case
    by (simp add: read_loop_done push_error_def logger_warn_def)
next
  case (Suc n)
  then have lt: "depth < MAX_DEPTH" and n: "n = MAX_DEPTH - Suc depth" and le: "Suc depth \<le> MAX_DEPTH"
    by arith+
  have m: "MAX_DEPTH - depth = Suc n"
    using Suc.hyps(2) by simp
  show ?case
    using Suc.hyps(1) [OF n le]
    by (simp add: read_loop_step [OF lt] m st_append_sel final_framed n)
qed

lemma read_loop_newItems:
  "depth < MAX_DEPTH \<Longrightarrow>
     newItems (final (read_loop this loc depth items st))
       = emitted this (last (rounds_from this (MAX_DEPTH - depth) items))"
proof (induction "MAX_DEPTH - depth" arbitrary: depth items st)
  case 0
  then show ?case by simp
next
  case (Suc n)
  then have lt: "depth < MAX_DEPTH" and n: "n = MAX_DEPTH - Suc depth"
    by arith+
  have m: "MAX_DEPTH - depth = Suc n"
    using Suc.hyps(2) by simp
  show ?case
  proof (cases "continues this items")
    case False
    then show ?thesis
      by (simp add: read_loop_step [OF lt] m st_append_sel final_framed emitted_def [symmetric])
  next
    case True
    note ne = True
    show ?thesis
    proof (cases "Suc depth < MAX_DEPTH")
      case True
      from n True have "0 < n"
        by arith
      then obtain k where k: "n = Suc k"
        using gr0_implies_Suc by blast
      have "rounds_from this n (emitted this items) \<noteq> []"
        unfolding k by simp
      then show ?thesis
        using Suc.hyps(1) [OF n True] ne
        by (simp add: read_loop_step [OF lt] m n)
    next
      case False
      with lt have e: "Suc depth = MAX_DEPTH" by simp
      then have n0: "n = 0" using n by simp
      show ?thesis
        using ne e
        by (simp add: read_loop_step [OF lt] m n0 read_loop_done push_error_def logger_warn_def
                      st_append_sel emitted_def [symmetric])
    qed
  qed
qed

lemma read_loop_returned:
  "depth < MAX_DEPTH \<Longrightarrow>
     returned (read_loop this loc depth items st)
       = returned (round_effect this (last (rounds_from this (MAX_DEPTH - depth) items)))"
proof (induction "MAX_DEPTH - depth" arbitrary: depth items st)
  case 0
  then show ?case by simp
next
  case (Suc n)
  then have lt: "depth < MAX_DEPTH" and n: "n = MAX_DEPTH - Suc depth"
    by arith+
  have m: "MAX_DEPTH - depth = Suc n"
    using Suc.hyps(2) by simp
  show ?case
  proof (cases "continues this items")
    case False
    then show ?thesis
      by (simp add: read_loop_step [OF lt] m returned_framed)
  next
    case True
    note ne = True
    show ?thesis
    proof (cases "Suc depth < MAX_DEPTH")
      case True
      from n True have "0 < n"
        by arith
      then obtain k where k: "n = Suc k"
        using gr0_implies_Suc by blast
      have "rounds_from this n (emitted this items) \<noteq> []"
        unfolding k by simp
      then show ?thesis
        using Suc.hyps(1) [OF n True] ne
        by (simp add: read_loop_step [OF lt] m n)
    next
      case False
      with lt have e: "Suc depth = MAX_DEPTH" by simp
      then have n0: "n = 0" using n by simp
      show ?thesis
        using ne e
        by (simp add: read_loop_step [OF lt] m n0 read_loop_done continues_def)
    qed
  qed
qed


lemma exhausted_iff:
  "exhausted this (Suc n) items \<longleftrightarrow> continues this (last (rounds_from this (Suc n) items))"
proof (induction n arbitrary: items)
  case 0
  show ?case by simp
next
  case (Suc n)
  show ?case
    using Suc.IH [of "emitted this items"] by auto
qed


lemma rounds_from_chain:
  "Suc k < length (rounds_from this n items) \<Longrightarrow>
     rounds_from this n items ! Suc k = emitted this (rounds_from this n items ! k)
     \<and> continues this (rounds_from this n items ! k)"
proof (induction n arbitrary: items k)
  case 0
  then show ?case by simp
next
  case (Suc n)
  note prems = Suc.prems and IH = Suc.IH
  show ?case
  proof (cases "continues this items")
    case False
    with prems show ?thesis by auto
  next
    case True
    note ne = True
    show ?thesis
    proof (cases k)
      case 0
      with prems ne show ?thesis by (cases n) simp_all
    next
      case (Suc j)
      with prems ne have "Suc j < length (rounds_from this n (emitted this items))" by simp
      from IH [OF this] show ?thesis using ne Suc by simp
    qed
  qed
qed

lemma rounds_from_stops:
  "N < length (rounds_from this n items) \<Longrightarrow>
   \<not> continues this (rounds_from this n items ! N) \<Longrightarrow>
   length (rounds_from this n items) = Suc N"
proof (induction n arbitrary: items N)
  case 0
  then show ?case by simp
next
  case (Suc n)
  note prems = Suc.prems and IH = Suc.IH
  show ?case
  proof (cases N)
    case 0
    with prems show ?thesis by auto
  next
    case (Suc j)
    with prems have ne: "continues this items"
      by (auto split: if_splits)
    with prems Suc have "j < length (rounds_from this n (emitted this items))"
      and "\<not> continues this (rounds_from this n (emitted this items) ! j)"
      by simp_all
    from IH [OF this] show ?thesis
      using ne Suc by simp
  qed
qed

lemma rounds_from_numeral:
  "rounds_from this (numeral k) items =
     items # (if continues this items
              then rounds_from this (pred_numeral k) (emitted this items) else [])"
  by (simp add: numeral_eq_Suc)

section \<open>A whole call\<close>

lemma read_run_rounds:
  "rounds (final (read_run this loc)) = rounds_from this MAX_DEPTH [LocationResult loc False]"
  using read_loop_rounds [of 0 this loc "[location loc False]" initial_state]
  by (simp add: read_run_def location_def initial_state_def)



lemma read_run_rounds_nonempty: "rounds (final (read_run this loc)) \<noteq> []"
  by (simp add: read_run_rounds MAX_DEPTH_def rounds_from_numeral)

lemma read_run_newItems:
  "newItems (final (read_run this loc))
     = emitted this (last (rounds (final (read_run this loc))))"
  unfolding read_run_rounds
  unfolding read_run_def location_def
  using read_loop_newItems [of 0 this loc "[LocationResult loc False]" initial_state]
  by (simp add: MAX_DEPTH_def)

lemma read_run_returned:
  "returned (read_run this loc)
     = returned (round_effect this (last (rounds (final (read_run this loc)))))"
  unfolding read_run_rounds
  unfolding read_run_def location_def
  using read_loop_returned [of 0 this loc "[LocationResult loc False]" initial_state]
  by (simp add: MAX_DEPTH_def)

lemma read_run_exhausted:
  "exhausted this MAX_DEPTH [LocationResult loc False]
     \<longleftrightarrow> returned (read_run this loc) \<and> newItems (final (read_run this loc)) \<noteq> []"
proof -
  have "MAX_DEPTH = Suc 9"
    by (simp add: MAX_DEPTH_def)
  then show ?thesis
    using exhausted_iff [of this 9 "[LocationResult loc False]"]
    by (simp add: read_run_returned read_run_newItems read_run_rounds continues_def)
qed

lemma read_run_chain:
  assumes "Suc N < length (rounds (final (read_run this loc)))"
  shows "rounds (final (read_run this loc)) ! Suc N
           = emitted this (rounds (final (read_run this loc)) ! N)"
    and "returned (round_effect this (rounds (final (read_run this loc)) ! N))"
  using assms rounds_from_chain [of N this MAX_DEPTH "[LocationResult loc False]"]
  by (simp_all add: read_run_rounds continues_def)

lemma read_run_round_returned:
  assumes "returned (read_run this loc)" and "N < length (rounds (final (read_run this loc)))"
  shows "returned (round_effect this (rounds (final (read_run this loc)) ! N))"
proof (cases "Suc N < length (rounds (final (read_run this loc)))")
  case True
  then show ?thesis by (rule read_run_chain)
next
  case False
  with assms(2) have "N = length (rounds (final (read_run this loc))) - 1"
    by simp
  then have "rounds (final (read_run this loc)) ! N = last (rounds (final (read_run this loc)))"
    using assms(2) by (simp add: last_conv_nth read_run_rounds_nonempty)
  then show ?thesis
    using assms(1) by (simp add: read_run_returned)
qed

lemma read_run_errors:
  "errors (out (final (read_run this loc)))
     = concat (map (\<lambda>items. errors (out (final (round_effect this items))))
                   (rounds (final (read_run this loc))))
       @ (if returned (read_run this loc) \<and> newItems (final (read_run this loc)) \<noteq> []
          then [(loc, Error (max_depth_message loc))] else [])"
  unfolding read_run_rounds read_run_exhausted [symmetric]
  unfolding read_run_def location_def
  using read_loop_errors [of 0 this loc "[LocationResult loc False]" initial_state]
  by (simp add: initial_state_sel)

lemma read_run_entities:
  "entities (out (final (read_run this loc)))
     = concat (map (\<lambda>items. entities (out (final (round_effect this items))))
                   (rounds (final (read_run this loc))))"
  unfolding read_run_rounds
  unfolding read_run_def location_def
  using read_loop_entities [of 0 this loc "[LocationResult loc False]" initial_state]
  by (simp add: initial_state_sel)

lemma read_run_logged:
  "logged (final (read_run this loc))
     = concat (map (\<lambda>items. logged (final (round_effect this items)))
                   (rounds (final (read_run this loc))))
       @ (if returned (read_run this loc) \<and> newItems (final (read_run this loc)) \<noteq> []
          then [Warn (max_depth_message loc)] else [])"
  unfolding read_run_rounds read_run_exhausted [symmetric]
  unfolding read_run_def location_def
  using read_loop_logged [of 0 this loc "[LocationResult loc False]" initial_state]
  by (simp add: initial_state_sel)

lemma read_run_calls:
  "calls (final (read_run this loc))
     = concat (map (\<lambda>items. calls (final (round_effect this items)))
                   (rounds (final (read_run this loc))))"
  unfolding read_run_rounds
  unfolding read_run_def location_def
  using read_loop_calls [of 0 this loc "[LocationResult loc False]" initial_state]
  by (simp add: initial_state_sel)

lemma read_run_stops:
  assumes "N < length (rounds (final (read_run this loc)))"
    and "round_effect this (rounds (final (read_run this loc)) ! N) = Inr d"
    and "newItems d = []"
  shows "length (rounds (final (read_run this loc))) = Suc N"
    and "returned (read_run this loc)"
    and "newItems (final (read_run this loc)) = []"
proof -
  have e: "emitted this (rounds (final (read_run this loc)) ! N) = []"
    using assms(2,3) by (simp add: emitted_def)
  then have "\<not> continues this (rounds (final (read_run this loc)) ! N)"
    by (simp add: continues_def)
  then show len: "length (rounds (final (read_run this loc))) = Suc N"
    using assms(1) rounds_from_stops [of N this MAX_DEPTH "[LocationResult loc False]"]
    by (simp add: read_run_rounds)
  then have l: "last (rounds (final (read_run this loc))) = rounds (final (read_run this loc)) ! N"
    by (simp add: last_conv_nth read_run_rounds_nonempty)
  show "returned (read_run this loc)"
    by (simp add: read_run_returned l assms(2))
  show "newItems (final (read_run this loc)) = []"
    by (simp add: read_run_newItems l e)
qed

lemma read_result:
  "read this loc = Inr result
     \<longleftrightarrow> returned (read_run this loc) \<and> result = out (final (read_run this loc))"
  by (cases "read_run this loc" rule: raised_cases) (auto simp: read_def)

lemma read_returned:
  "returned (read_run this loc) \<Longrightarrow> read this loc = Inr (out (final (read_run this loc)))"
  by (simp add: read_result)

lemma read_result_eq:
  assumes "returned (read_run this loc)"
    and "entities (out (final (read_run this loc))) = es"
    and "errors (out (final (read_run this loc))) = rs"
  shows "read this loc = Inr \<lparr>entities = es, errors = rs\<rparr>"
  using assms by (cases "out (final (read_run this loc))") (simp add: read_result)

lemma max_depth_message_text:
  "max_depth_message loc = ''Max recursion depth 10 reached for '' @ ltype loc @ '' '' @ target loc"
  by (simp add: max_depth_message_def MAX_DEPTH_def show_nat.simps [of 10] show_nat.simps [of "Suc 0"]
                digit_char_def)

lemma loc0_sel: "ltype loc0 = ''file''" "target loc0 = ''a''"
  by (simp_all add: loc0_def)

section \<open>What reaches the returned result\<close>

lemma read_entities_member:
  assumes "returned (read_run this start)"
    and "N < length (rounds (final (read_run this start)))"
    and "item \<in> set (rounds (final (read_run this start)) ! N)"
    and "x \<in> set (entities (out (final (process_item this item initial_state))))"
  shows "x \<in> set (entities (out (final (read_run this start))))"
proof -
  let ?items = "rounds (final (read_run this start)) ! N"
  have "returned (round_effect this ?items)"
    using assms(1,2) by (rule read_run_round_returned)
  then have "x \<in> set (entities (out (final (round_effect this ?items))))"
    using assms(3,4) by (auto simp: round_effect_entities processed_all)
  moreover have "?items \<in> set (rounds (final (read_run this start)))"
    using assms(2) by simp
  ultimately show ?thesis
    unfolding read_run_entities by auto
qed

lemma read_errors_member:
  assumes "returned (read_run this start)"
    and "N < length (rounds (final (read_run this start)))"
    and "item \<in> set (rounds (final (read_run this start)) ! N)"
    and "x \<in> set (errors (out (final (process_item this item initial_state))))"
  shows "x \<in> set (errors (out (final (read_run this start))))"
proof -
  let ?items = "rounds (final (read_run this start)) ! N"
  have "returned (round_effect this ?items)"
    using assms(1,2) by (rule read_run_round_returned)
  then have "x \<in> set (errors (out (final (round_effect this ?items))))"
    using assms(3,4) by (auto simp: round_effect_errors processed_all)
  moreover have "?items \<in> set (rounds (final (read_run this start)))"
    using assms(2) by simp
  ultimately show ?thesis
    unfolding read_run_errors by auto
qed

lemma read_emitted_error_member:
  assumes "returned (read_run this start)"
    and "Suc N < length (rounds (final (read_run this start)))"
    and "item \<in> set (rounds (final (read_run this start)) ! N)"
    and "ErrorResult l err \<in> set (newItems (final (process_item this item initial_state)))"
  shows "(l, err) \<in> set (errors (out (final (read_run this start))))"
proof -
  let ?r = "rounds (final (read_run this start))"
  have "ErrorResult l err \<in> set (emitted this (?r ! N))"
    using read_run_chain(2) [OF assms(2)] assms(3,4) by (rule emitted_member)
  then have m: "ErrorResult l err \<in> set (?r ! Suc N)"
    by (simp add: read_run_chain(1) [OF assms(2)])
  have "returned (round_effect this (?r ! Suc N))"
    using assms(1,2) by (rule read_run_round_returned)
  with m have "returned (process_item this (ErrorResult l err) initial_state)"
    unfolding round_effect_returned by blast
  then have "(l, err) \<in> set (errors (out (final (process_item this (ErrorResult l err) initial_state))))"
    by (simp add: process_error_item_errors del: process_item.simps)
  with assms(1,2) m show ?thesis
    by (rule read_errors_member)
qed

section \<open>The first-match chains\<close>

lemma passes_thrown:
  "passes (Some (Inl e)) \<Longrightarrow> \<exists>text. e = Thrown text"
  by (cases e) simp_all

lemma outcome_ok_thrown:
  "outcome_ok (Some (Inl e)) \<Longrightarrow> \<exists>text. e = Thrown text"
  by (cases e) simp_all

lemma handleLocation_loop_not_handled:
  "\<forall>q\<in>set ps. passes (readLocation_outcome q loc opt) \<Longrightarrow>
   handleLocation_loop ps loc opt st =
     Inr (False, st\<lparr>newItems := newItems st @ concat (map (\<lambda>q. readLocation_items q loc opt) ps),
                     calls := calls st @ concat (map (\<lambda>q. readLocation_calls q loc opt) ps)\<rparr>)"
proof (induction ps arbitrary: st)
  case Nil
  show ?case by simp
next
  case (Cons p ps)
  then have rest: "\<forall>q\<in>set ps. passes (readLocation_outcome q loc opt)"
    and here: "passes (readLocation_outcome p loc opt)"
    by simp_all
  note IH = Cons.IH [OF rest]
  show ?case
  proof (cases "readLocation p")
    case None
    then show ?thesis
      by (simp add: IH readLocation_items_def readLocation_emitted_def readLocation_outcome_def
                    readLocation_calls_def)
  next
    case (Some hook)
    show ?thesis
    proof (cases "snd (hook loc opt)")
      case (Inl e)
      with here Some obtain msg where "e = Thrown msg"
        using passes_thrown [of e] by (auto simp: readLocation_outcome_def)
      with Inl show ?thesis
        by (simp add: Some IH invoke_def emit_def readLocation_items_def readLocation_emitted_def
                      readLocation_outcome_def readLocation_calls_def)
    next
      case (Inr b)
      with here Some have "b = False"
        by (simp add: readLocation_outcome_def)
      with Inr show ?thesis
        by (simp add: Some IH invoke_def readLocation_items_def readLocation_emitted_def
                      readLocation_outcome_def readLocation_calls_def)
    qed
  qed
qed

lemma handleLocation_loop_handled:
  "readLocation_outcome p loc opt = Some (Inr True) \<Longrightarrow>
   handleLocation_loop (p # post) loc opt st =
     Inr (True, st\<lparr>newItems := newItems st @ readLocation_items p loc opt,
                    calls := calls st @ readLocation_calls p loc opt\<rparr>)"
  by (cases "readLocation p")
     (auto simp: invoke_def readLocation_items_def readLocation_emitted_def
                 readLocation_outcome_def readLocation_calls_def)

lemma handleLocation_loop_append:
  "handleLocation_loop (xs @ ys) loc opt st =
     (case handleLocation_loop xs loc opt st of
        Inl r \<Rightarrow> Inl r
      | Inr (handled, st') \<Rightarrow>
          if handled then Inr (True, st') else handleLocation_loop ys loc opt st')"
  by (induction xs arbitrary: st)
     (auto split: option.splits sum.splits bool.splits prod.splits)

lemma handleLocation_loop_skip:
  assumes "\<forall>q\<in>set pre. passes (readLocation_outcome q loc opt)"
  shows "handleLocation_loop (pre @ post) loc opt st =
           handleLocation_loop post loc opt
             (st\<lparr>newItems := newItems st @ concat (map (\<lambda>q. readLocation_items q loc opt) pre),
                 calls := calls st @ concat (map (\<lambda>q. readLocation_calls q loc opt) pre)\<rparr>)"
  by (simp add: handleLocation_loop_append handleLocation_loop_not_handled [OF assms])

lemma handleLocation_first_match:
  assumes "processors this = pre @ p # post"
    and "\<forall>q\<in>set pre. passes (readLocation_outcome q loc opt)"
    and "readLocation_outcome p loc opt = Some (Inr True)"
  shows "handleLocation this loc opt st =
           Inr (st\<lparr>newItems := newItems st @ concat (map (\<lambda>q. readLocation_items q loc opt) (pre @ [p])),
                   logged := logged st @ [Debug (reading_location loc opt)],
                   calls := calls st @ concat (map (\<lambda>q. readLocation_calls q loc opt) (pre @ [p]))\<rparr>)"
  using assms(1)
  by (simp add: handleLocation_def handleLocation_loop_skip [OF assms(2)]
                handleLocation_loop_handled [OF assms(3)] logger_debug_def
           del: handleLocation_loop.simps)

lemma handleLocation_unhandled:
  assumes "\<forall>q\<in>set (processors this). passes (readLocation_outcome q loc opt)"
  shows "handleLocation this loc opt st =
           Inr (st\<lparr>newItems := newItems st
                       @ concat (map (\<lambda>q. readLocation_items q loc opt) (processors this))
                       @ [ErrorResult loc (InputError (no_processor_read loc))],
                   logged := logged st @ [Debug (reading_location loc opt)],
                   calls := calls st
                       @ concat (map (\<lambda>q. readLocation_calls q loc opt) (processors this))\<rparr>)"
  by (simp add: handleLocation_def handleLocation_loop_not_handled [OF assms] logger_debug_def
                emit_def inputError_def)






lemma handleData_loop_not_handled:
  "\<forall>q\<in>set ps. passes (parseData_outcome q d loc) \<Longrightarrow>
   handleData_loop ps d loc st =
     Inr (False, st\<lparr>newItems := newItems st @ concat (map (\<lambda>q. parseData_items q d loc) ps),
                     calls := calls st @ concat (map (\<lambda>q. parseData_calls q d loc) ps)\<rparr>)"
proof (induction ps arbitrary: st)
  case Nil
  show ?case by simp
next
  case (Cons p ps)
  then have rest: "\<forall>q\<in>set ps. passes (parseData_outcome q d loc)"
    and here: "passes (parseData_outcome p d loc)"
    by simp_all
  note IH = Cons.IH [OF rest]
  show ?case
  proof (cases "parseData p")
    case None
    then show ?thesis
      by (simp add: IH parseData_items_def parseData_emitted_def parseData_outcome_def
                    parseData_calls_def)
  next
    case (Some hook)
    show ?thesis
    proof (cases "snd (hook d loc)")
      case (Inl e)
      with here Some obtain msg where "e = Thrown msg"
        using passes_thrown [of e] by (auto simp: parseData_outcome_def)
      with Inl show ?thesis
        by (simp add: Some IH invoke_def emit_def parseData_items_def parseData_emitted_def
                      parseData_outcome_def parseData_calls_def)
    next
      case (Inr b)
      with here Some have "b = False"
        by (simp add: parseData_outcome_def)
      with Inr show ?thesis
        by (simp add: Some IH invoke_def parseData_items_def parseData_emitted_def
                      parseData_outcome_def parseData_calls_def)
    qed
  qed
qed

lemma handleData_loop_handled:
  "parseData_outcome p d loc = Some (Inr True) \<Longrightarrow>
   handleData_loop (p # post) d loc st =
     Inr (True, st\<lparr>newItems := newItems st @ parseData_items p d loc,
                    calls := calls st @ parseData_calls p d loc\<rparr>)"
  by (cases "parseData p")
     (auto simp: invoke_def parseData_items_def parseData_emitted_def
                 parseData_outcome_def parseData_calls_def)

lemma handleData_loop_append:
  "handleData_loop (xs @ ys) d loc st =
     (case handleData_loop xs d loc st of
        Inl r \<Rightarrow> Inl r
      | Inr (handled, st') \<Rightarrow>
          if handled then Inr (True, st') else handleData_loop ys d loc st')"
  by (induction xs arbitrary: st)
     (auto split: option.splits sum.splits bool.splits prod.splits)

lemma handleData_loop_skip:
  assumes "\<forall>q\<in>set pre. passes (parseData_outcome q d loc)"
  shows "handleData_loop (pre @ post) d loc st =
           handleData_loop post d loc
             (st\<lparr>newItems := newItems st @ concat (map (\<lambda>q. parseData_items q d loc) pre),
                 calls := calls st @ concat (map (\<lambda>q. parseData_calls q d loc) pre)\<rparr>)"
  by (simp add: handleData_loop_append handleData_loop_not_handled [OF assms])

lemma handleData_first_match:
  assumes "processors this = pre @ p # post"
    and "\<forall>q\<in>set pre. passes (parseData_outcome q d loc)"
    and "parseData_outcome p d loc = Some (Inr True)"
  shows "handleData this loc d st =
           Inr (st\<lparr>newItems := newItems st @ concat (map (\<lambda>q. parseData_items q d loc) (pre @ [p])),
                   logged := logged st @ [Debug (parsing_data loc d)],
                   calls := calls st @ concat (map (\<lambda>q. parseData_calls q d loc) (pre @ [p]))\<rparr>)"
  using assms(1)
  by (simp add: handleData_def handleData_loop_skip [OF assms(2)]
                handleData_loop_handled [OF assms(3)] logger_debug_def
           del: handleData_loop.simps)

lemma handleData_unhandled:
  assumes "\<forall>q\<in>set (processors this). passes (parseData_outcome q d loc)"
  shows "handleData this loc d st =
           Inr (st\<lparr>newItems := newItems st
                       @ concat (map (\<lambda>q. parseData_items q d loc) (processors this))
                       @ [ErrorResult loc (InputError (no_processor_parse loc))],
                   logged := logged st @ [Debug (parsing_data loc d)],
                   calls := calls st
                       @ concat (map (\<lambda>q. parseData_calls q d loc) (processors this))\<rparr>)"
  by (simp add: handleData_def handleData_loop_not_handled [OF assms] logger_debug_def
                emit_def inputError_def)






lemma readLocation_items_thrown:
  "readLocation_outcome p loc opt = Some (Inl (Thrown text)) \<Longrightarrow>
   readLocation_items p loc opt
     = readLocation_emitted p loc opt @ [ErrorResult loc (Error (readLocation_threw p loc text))]"
  "readLocation_outcome p loc opt = Some (Inl (Thrown text)) \<Longrightarrow>
   readLocation_calls p loc opt = [CallReadLocation (constructor_name p) loc opt]"
  by (auto simp: readLocation_items_def readLocation_calls_def readLocation_outcome_def
                 generalError_def)

lemma parseData_items_thrown:
  "parseData_outcome p d loc = Some (Inl (Thrown text)) \<Longrightarrow>
   parseData_items p d loc
     = parseData_emitted p d loc @ [ErrorResult loc (Error (parseData_threw p loc text))]"
  "parseData_outcome p d loc = Some (Inl (Thrown text)) \<Longrightarrow>
   parseData_calls p d loc = [CallParseData (constructor_name p) d loc]"
  by (auto simp: parseData_items_def parseData_calls_def parseData_outcome_def generalError_def)

section \<open>The chains that run every processor\<close>

lemma handleEntity_loop_fold:
  "pipeline_ok ps loc current \<Longrightarrow>
   handleEntity_loop ps loc current st =
     Inr (foldl (\<lambda>c p. transform_step p loc c) current ps,
          st\<lparr>newItems := newItems st @ pipeline_items ps loc current,
             calls := calls st @ pipeline_calls ps loc current\<rparr>)"
proof (induction ps arbitrary: current st)
  case Nil
  show ?case by simp
next
  case (Cons p ps)
  then have here: "outcome_ok (processEntity_outcome p current loc)"
    and rest: "pipeline_ok ps loc (transform_step p loc current)"
    by simp_all
  note IH = Cons.IH [OF rest]
  show ?case
  proof (cases "processEntity p")
    case None
    then show ?thesis
      using IH
      by (simp add: transform_step_def processEntity_items_def processEntity_emitted_def
                    processEntity_outcome_def processEntity_calls_def)
  next
    case (Some hook)
    show ?thesis
    proof (cases "snd (hook current loc)")
      case (Inl e)
      with here Some obtain msg where "e = Thrown msg"
        using outcome_ok_thrown [of e] by (auto simp: processEntity_outcome_def)
      with Inl show ?thesis
        using IH
        by (simp add: Some invoke_def emit_def transform_step_def processEntity_items_def
                      processEntity_emitted_def processEntity_outcome_def processEntity_calls_def)
    next
      case (Inr entity)
      then show ?thesis
        using IH
        by (simp add: Some invoke_def emit_def transform_step_def processEntity_items_def
                      processEntity_emitted_def processEntity_outcome_def processEntity_calls_def)
    qed
  qed
qed

lemma handleEntity_loop_returned:
  "returned (handleEntity_loop ps loc current st) \<Longrightarrow> pipeline_ok ps loc current"
proof (induction ps arbitrary: current st)
  case Nil
  show ?case by simp
next
  case (Cons p ps)
  note prems = Cons.prems and IH = Cons.IH
  show ?case
  proof (cases "processEntity p")
    case None
    with prems IH show ?thesis
      by (simp add: transform_step_def processEntity_outcome_def)
  next
    case (Some hook)
    show ?thesis
    proof (cases "snd (hook current loc)")
      case (Inl e)
      show ?thesis
      proof (cases e)
        case (Thrown msg)
        with prems IH Inl show ?thesis
          by (simp add: Some invoke_def transform_step_def processEntity_outcome_def)
      next
        case (Unconvertible x)
        with prems Inl show ?thesis
          by (simp add: Some invoke_def)
      qed
    next
      case (Inr entity)
      with prems IH show ?thesis
        by (simp add: Some invoke_def transform_step_def processEntity_outcome_def)
    qed
  qed
qed

lemma handleEntity_loop_append:
  "handleEntity_loop (xs @ ys) loc current st =
     (case handleEntity_loop xs loc current st of
        Inl r \<Rightarrow> Inl r
      | Inr (entity, st') \<Rightarrow> handleEntity_loop ys loc entity st')"
  by (induction xs arbitrary: current st) (auto split: option.splits sum.splits prod.splits)

lemma handleEntity_fold:
  "pipeline_ok (processors this) loc entity \<Longrightarrow>
   handleEntity this loc entity st =
     Inr (foldl (\<lambda>c p. transform_step p loc c) entity (processors this),
          st\<lparr>newItems := newItems st @ pipeline_items (processors this) loc entity,
             logged := logged st @ [Debug (got_entity loc entity)],
             calls := calls st @ pipeline_calls (processors this) loc entity\<rparr>)"
  by (simp add: handleEntity_def handleEntity_loop_fold logger_debug_def)

lemma handleEntity_returned:
  "returned (handleEntity this loc entity st) \<Longrightarrow> pipeline_ok (processors this) loc entity"
  unfolding handleEntity_def by (rule handleEntity_loop_returned)

lemma process_allowed_entity:
  "isAllowed this entity loc \<Longrightarrow> pipeline_ok (processors this) loc entity \<Longrightarrow>
   process_item this (EntityResult loc entity) st =
     Inr (st\<lparr>out := (out st)\<lparr>entities := entities (out st)
                  @ [(foldl (\<lambda>c p. transform_step p loc c) entity (processors this), loc)]\<rparr>,
             newItems := newItems st @ pipeline_items (processors this) loc entity,
             logged := logged st @ [Debug (got_entity loc entity)],
             calls := calls st @ pipeline_calls (processors this) loc entity\<rparr>)"
  by (simp add: handleEntity_fold push_entity_def)

lemma process_disallowed_entity:
  "\<not> isAllowed this entity loc \<Longrightarrow>
   process_item this (EntityResult loc entity) st =
     Inr (st\<lparr>out := (out st)\<lparr>errors := errors (out st)
                  @ [(loc, Error (not_allowed_message entity loc))]\<rparr>\<rparr>)"
  by (simp add: push_error_def)

lemma pipeline_items_append:
  "pipeline_items (xs @ ys) loc current =
     pipeline_items xs loc current
       @ pipeline_items ys loc (foldl (\<lambda>c p. transform_step p loc c) current xs)"
  by (induction xs arbitrary: current) simp_all

lemma pipeline_calls_append:
  "pipeline_calls (xs @ ys) loc current =
     pipeline_calls xs loc current
       @ pipeline_calls ys loc (foldl (\<lambda>c p. transform_step p loc c) current xs)"
  by (induction xs arbitrary: current) simp_all

lemma pipeline_ok_append:
  "pipeline_ok (xs @ ys) loc current \<longleftrightarrow>
     pipeline_ok xs loc current
       \<and> pipeline_ok ys loc (foldl (\<lambda>c p. transform_step p loc c) current xs)"
  by (induction xs arbitrary: current) simp_all

lemma processEntity_items_thrown:
  "processEntity_outcome p current loc = Some (Inl (Thrown text)) \<Longrightarrow>
   processEntity_items p loc current
     = processEntity_emitted p loc current @ [ErrorResult loc (Error (processEntity_threw p loc text))]"
  "processEntity_outcome p current loc = Some (Inl (Thrown text)) \<Longrightarrow>
   processEntity_calls p loc current = [CallProcessEntity (constructor_name p) current loc]"
  "processEntity_outcome p current loc = Some (Inl (Thrown text)) \<Longrightarrow>
   transform_step p loc current = current"
  by (auto simp: processEntity_items_def processEntity_emitted_def processEntity_calls_def
                 processEntity_outcome_def transform_step_def generalError_def)

lemma handleError_loop_all:
  "\<forall>q\<in>set ps. outcome_ok (handleError_outcome q err loc) \<Longrightarrow>
   handleError_loop ps loc err st =
     Inr (st\<lparr>newItems := newItems st @ concat (map (\<lambda>q. handleError_items q err loc) ps),
             calls := calls st @ concat (map (\<lambda>q. handleError_calls q err loc) ps)\<rparr>)"
proof (induction ps arbitrary: st)
  case Nil
  show ?case by simp
next
  case (Cons p ps)
  then have rest: "\<forall>q\<in>set ps. outcome_ok (handleError_outcome q err loc)"
    and here: "outcome_ok (handleError_outcome p err loc)"
    by simp_all
  note IH = Cons.IH [OF rest]
  show ?case
  proof (cases "handleError_hook p")
    case None
    then show ?thesis
      by (simp add: IH handleError_items_def handleError_emitted_def handleError_outcome_def
                    handleError_calls_def)
  next
    case (Some hook)
    show ?thesis
    proof (cases "snd (hook err loc)")
      case (Inl e)
      with here Some obtain msg where "e = Thrown msg"
        using outcome_ok_thrown [of e] by (auto simp: handleError_outcome_def)
      with Inl show ?thesis
        by (simp add: Some IH invoke_def emit_def handleError_items_def
                      handleError_emitted_def handleError_outcome_def handleError_calls_def)
    next
      case (Inr u)
      then show ?thesis
        by (simp add: Some IH invoke_def emit_def handleError_items_def
                      handleError_emitted_def handleError_outcome_def handleError_calls_def)
    qed
  qed
qed

lemma handleError_loop_append:
  "handleError_loop (xs @ ys) loc err st =
     (case handleError_loop xs loc err st of
        Inl r \<Rightarrow> Inl r
      | Inr st' \<Rightarrow> handleError_loop ys loc err st')"
  by (induction xs arbitrary: st) (auto split: option.splits sum.splits prod.splits)

lemma handleError_items_thrown:
  "handleError_outcome p err loc = Some (Inl (Thrown text)) \<Longrightarrow>
   handleError_items p err loc
     = handleError_emitted p err loc @ [ErrorResult loc (Error (handleError_threw p loc text))]"
  "handleError_outcome p err loc = Some (Inl (Thrown text)) \<Longrightarrow>
   handleError_calls p err loc = [CallHandleError (constructor_name p) err loc]"
  by (auto simp: handleError_items_def handleError_calls_def handleError_outcome_def
                 generalError_def)

section \<open>When no conversion of a thrown value throws\<close>

lemma outcome_ok_passes_or_handles:
  "outcome_ok x \<Longrightarrow> passes x \<or> x = Some (Inr True)"
  by (cases x rule: passes.cases) simp_all

lemma handleLocation_loop_returns:
  "\<forall>q\<in>set ps. outcome_ok (readLocation_outcome q loc opt) \<Longrightarrow>
   returned (handleLocation_loop ps loc opt st)"
proof (induction ps arbitrary: st)
  case Nil
  show ?case by simp
next
  case (Cons p ps)
  then have rest: "\<forall>q\<in>set ps. outcome_ok (readLocation_outcome q loc opt)"
    and here: "outcome_ok (readLocation_outcome p loc opt)"
    by simp_all
  note IH = Cons.IH [OF rest]
  from here consider "passes (readLocation_outcome p loc opt)"
    | "readLocation_outcome p loc opt = Some (Inr True)"
    using outcome_ok_passes_or_handles by blast
  then show ?case
  proof cases
    case 1
    then have "\<forall>q\<in>set [p]. passes (readLocation_outcome q loc opt)"
      by simp
    from handleLocation_loop_skip [OF this, of ps st] show ?thesis
      using IH by simp
  next
    case 2
    then show ?thesis
      by (simp add: handleLocation_loop_handled del: handleLocation_loop.simps)
  qed
qed

lemma handleData_loop_returns:
  "\<forall>q\<in>set ps. outcome_ok (parseData_outcome q d loc) \<Longrightarrow>
   returned (handleData_loop ps d loc st)"
proof (induction ps arbitrary: st)
  case Nil
  show ?case by simp
next
  case (Cons p ps)
  then have rest: "\<forall>q\<in>set ps. outcome_ok (parseData_outcome q d loc)"
    and here: "outcome_ok (parseData_outcome p d loc)"
    by simp_all
  note IH = Cons.IH [OF rest]
  from here consider "passes (parseData_outcome p d loc)"
    | "parseData_outcome p d loc = Some (Inr True)"
    using outcome_ok_passes_or_handles by blast
  then show ?case
  proof cases
    case 1
    then have "\<forall>q\<in>set [p]. passes (parseData_outcome q d loc)"
      by simp
    from handleData_loop_skip [OF this, of ps st] show ?thesis
      using IH by simp
  next
    case 2
    then show ?thesis
      by (simp add: handleData_loop_handled del: handleData_loop.simps)
  qed
qed

lemma pipeline_ok_convertible:
  "\<forall>q\<in>set ps. throws_convertible q \<Longrightarrow> pipeline_ok ps loc current"
  by (induction ps arbitrary: current) (simp_all add: throws_convertible_def)

lemma process_item_returns:
  assumes "\<forall>p\<in>set (processors this). throws_convertible p"
  shows "returned (process_item this item st)"
proof (cases item)
  case (LocationResult loc opt)
  have "\<forall>q\<in>set (processors this). outcome_ok (readLocation_outcome q loc opt)"
    using assms by (simp add: throws_convertible_def)
  from handleLocation_loop_returns [OF this, of "logger_debug (reading_location loc opt) st"]
  show ?thesis
    by (cases "handleLocation_loop (processors this) loc opt (logger_debug (reading_location loc opt) st)"
          rule: raised_with_cases)
       (simp_all add: LocationResult handleLocation_def)
next
  case (DataResult loc d)
  have "\<forall>q\<in>set (processors this). outcome_ok (parseData_outcome q d loc)"
    using assms by (simp add: throws_convertible_def)
  from handleData_loop_returns [OF this, of "logger_debug (parsing_data loc d) st"]
  show ?thesis
    by (cases "handleData_loop (processors this) d loc (logger_debug (parsing_data loc d) st)"
          rule: raised_with_cases)
       (simp_all add: DataResult handleData_def)
next
  case (EntityResult loc entity)
  have "pipeline_ok (processors this) loc entity"
    using assms by (rule pipeline_ok_convertible)
  then show ?thesis
    by (simp add: EntityResult handleEntity_fold)
next
  case (ErrorResult loc err)
  have "\<forall>q\<in>set (processors this). outcome_ok (handleError_outcome q err loc)"
    using assms by (simp add: throws_convertible_def)
  then show ?thesis
    by (simp add: ErrorResult handleError_def handleError_loop_all)
qed

lemma round_effect_returns:
  "\<forall>p\<in>set (processors this). throws_convertible p \<Longrightarrow> returned (round_effect this items)"
  by (simp add: round_effect_returned process_item_returns del: process_item.simps)

lemma read_run_returns:
  "\<forall>p\<in>set (processors this). throws_convertible p \<Longrightarrow> returned (read_run this loc)"
  by (simp add: read_run_returned round_effect_returns)




lemma process_items_all:
  "\<forall>item\<in>set items. returned (process_item this item initial_state) \<Longrightarrow>
   process_items this items st
     = Inr (foldl st_append st (map (\<lambda>item. final (process_item this item initial_state)) items))"
proof (induction items arbitrary: st)
  case Nil
  show ?case by simp
next
  case (Cons item items)
  then obtain d where d: "process_item this item initial_state = Inr d"
    by (cases "process_item this item initial_state") simp_all
  have "process_item this item st = Inr (st_append st d)"
    using process_item_frame [of this item st] by (simp add: d)
  then show ?case
    using Cons by (simp add: d)
qed


section \<open>The example chains, evaluated\<close>

lemmas example_processors =
  no_hooks_def decliner_def taker_def latecomer_def

lemmas pipeline_processors = emitter_def renamer_def thrower_def tagger_def no_hooks_def

lemma idle_seed_round:
  "process_items idle_engine [LocationResult loc0 False] initial_state
     = Inr \<lparr>out = \<lparr>entities = [], errors = []\<rparr>,
            newItems = [ErrorResult loc0 (InputError (no_processor_read loc0))],
            logged = [Debug (reading_location loc0 False)], calls = [], rounds = []\<rparr>"
  by (simp add: idle_engine_def no_hooks_def handleLocation_def logger_debug_def emit_def
                inputError_def initial_state_def)

lemma idle_error_round:
  "process_items idle_engine [ErrorResult l e] initial_state
     = Inr \<lparr>out = \<lparr>entities = [], errors = [(l, e)]\<rparr>, newItems = [],
            logged = [Debug (encountered_error l e)], calls = [], rounds = []\<rparr>"
  by (simp add: idle_engine_def no_hooks_def handleError_def logger_debug_def push_error_def
                initial_state_def)

lemma idle_rounds:
  "rounds (final (read_run idle_engine loc0))
     = [[LocationResult loc0 False], [ErrorResult loc0 (InputError (no_processor_read loc0))]]"
  by (simp add: read_run_rounds MAX_DEPTH_def rounds_from_numeral continues_def emitted_def
                round_effect_def idle_seed_round idle_error_round del: process_items.simps)





lemma not_allowed_message_ent0:
  "not_allowed_message ent0 loc0 = ''Entity of kind Component is not allowed from location a:file''"
  by (simp add: not_allowed_message_def ent0_def loc0_def)

lemma denying_round1:
  "process_items denying_engine [LocationResult loc0 False] initial_state
     = Inr \<lparr>out = \<lparr>entities = [], errors = []\<rparr>, newItems = [EntityResult loc0 ent0],
            logged = [Debug (reading_location loc0 False)],
            calls = [CallReadLocation ''Emitter'' loc0 False], rounds = []\<rparr>"
  by (simp add: denying_engine_def handleLocation_def logger_debug_def invoke_def
                initial_state_def pipeline_processors)

lemma denying_round2:
  "process_items denying_engine [EntityResult loc0 ent0] initial_state
     = Inr \<lparr>out = \<lparr>entities = [], errors = [(loc0, Error (not_allowed_message ent0 loc0))]\<rparr>,
            newItems = [], logged = [], calls = [], rounds = []\<rparr>"
  by (simp add: denying_engine_def allow_none_def push_error_def initial_state_def)

lemma denying_rounds:
  "rounds (final (read_run denying_engine loc0))
     = [[LocationResult loc0 False], [EntityResult loc0 ent0]]"
  by (simp add: read_run_rounds MAX_DEPTH_def rounds_from_numeral continues_def emitted_def
                round_effect_def denying_round1 denying_round2 del: process_items.simps)

lemma processEntity_threw_example:
  "processEntity_threw thrower loc0 ''Error: boom''
     = ''Processor Thrower threw an error while processing entity at file a, Error: boom''"
  by (simp add: processEntity_threw_def thrower_def no_hooks_def loc0_def)

lemma middle_round1:
  "process_items middle_throws_engine [LocationResult loc0 False] initial_state
     = Inr \<lparr>out = \<lparr>entities = [], errors = []\<rparr>, newItems = [EntityResult loc0 ent0],
            logged = [Debug (reading_location loc0 False)],
            calls = [CallReadLocation ''Emitter'' loc0 False], rounds = []\<rparr>"
  by (simp add: middle_throws_engine_def handleLocation_def logger_debug_def invoke_def
                initial_state_def pipeline_processors)

lemma middle_round2:
  "process_items middle_throws_engine [EntityResult loc0 ent0] initial_state
     = Inr \<lparr>out = \<lparr>entities = [(\<lparr>apiVersion = ''v1'', kind = ''API'', payload = ''p+tag''\<rparr>, loc0)],
                   errors = []\<rparr>,
            newItems = [ErrorResult loc0 (Error (processEntity_threw thrower loc0 ''Error: boom''))],
            logged = [Debug (got_entity loc0 ent0)],
            calls = [CallProcessEntity ''Renamer'' ent0 loc0,
                     CallProcessEntity ''Thrower'' (ent0\<lparr>kind := ''API''\<rparr>) loc0,
                     CallProcessEntity ''Tagger'' (ent0\<lparr>kind := ''API''\<rparr>) loc0],
            rounds = []\<rparr>"
  by (simp add: middle_throws_engine_def allow_all_def handleEntity_def logger_debug_def
                invoke_def emit_def push_entity_def generalError_def initial_state_def
                processEntity_threw_def pipeline_processors ent0_def)

lemma middle_round3:
  "process_items middle_throws_engine [ErrorResult l err] initial_state
     = Inr \<lparr>out = \<lparr>entities = [], errors = [(l, err)]\<rparr>, newItems = [],
            logged = [Debug (encountered_error l err)], calls = [], rounds = []\<rparr>"
  by (simp add: middle_throws_engine_def handleError_def logger_debug_def push_error_def
                initial_state_def pipeline_processors)

lemma middle_rounds:
  "rounds (final (read_run middle_throws_engine loc0))
     = [[LocationResult loc0 False], [EntityResult loc0 ent0],
        [ErrorResult loc0 (Error (processEntity_threw thrower loc0 ''Error: boom''))]]"
  by (simp add: read_run_rounds MAX_DEPTH_def rounds_from_numeral continues_def emitted_def
                round_effect_def middle_round1 middle_round2 middle_round3
           del: process_items.simps)

lemma middle_returned: "returned (read_run middle_throws_engine loc0)"
  by (simp add: read_run_returned middle_rounds round_effect_def middle_round3
           del: process_items.simps)

lemma middle_read:
  "read middle_throws_engine loc0
     = Inr \<lparr>entities = [(\<lparr>apiVersion = ''v1'', kind = ''API'', payload = ''p+tag''\<rparr>, loc0)],
            errors = [(loc0, Error ''Processor Thrower threw an error while processing entity at file a, Error: boom'')]\<rparr>"
proof (rule read_result_eq [OF middle_returned])
  have n: "newItems (final (read_run middle_throws_engine loc0)) = []"
    by (simp add: read_run_newItems middle_rounds emitted_def round_effect_def middle_round3
             del: process_items.simps)
  show "entities (out (final (read_run middle_throws_engine loc0)))
          = [(\<lparr>apiVersion = ''v1'', kind = ''API'', payload = ''p+tag''\<rparr>, loc0)]"
    by (simp add: read_run_entities middle_rounds round_effect_def middle_round1 middle_round2
                  middle_round3 del: process_items.simps)
  show "errors (out (final (read_run middle_throws_engine loc0)))
          = [(loc0, Error ''Processor Thrower threw an error while processing entity at file a, Error: boom'')]"
    by (simp add: read_run_errors n middle_rounds round_effect_def middle_round1 middle_round2
                  middle_round3 processEntity_threw_example del: process_items.simps)
qed





lemma faulty_messages:
  "readLocation_threw faulty loc0 ''Error: r''
     = ''Processor Faulty threw an error while reading location file a, Error: r''"
  "parseData_threw faulty loc0 ''Error: r''
     = ''Processor Faulty threw an error while parsing file a, Error: r''"
  "processEntity_threw faulty loc0 ''Error: r''
     = ''Processor Faulty threw an error while processing entity at file a, Error: r''"
  "handleError_threw faulty loc0 ''Error: r''
     = ''Processor Faulty threw an error while handling another error at file a, Error: r''"
  by (simp_all add: readLocation_threw_def parseData_threw_def processEntity_threw_def
                    handleError_threw_def faulty_def loc0_def)

lemma faulty_convertible: "\<forall>p\<in>set (processors faulty_engine). throws_convertible p"
  by (simp add: faulty_engine_def faulty_def decliner_def taker_def no_hooks_def
                throws_convertible_def readLocation_outcome_def parseData_outcome_def
                processEntity_outcome_def handleError_outcome_def)

lemma faulty_round1:
  "process_items faulty_engine [LocationResult loc0 False] initial_state
     = Inr \<lparr>out = \<lparr>entities = [], errors = []\<rparr>,
            newItems = [ErrorResult loc0 (Error (readLocation_threw faulty loc0 ''Error: r'')),
                        DataResult loc0 [1, 2]],
            logged = [Debug (reading_location loc0 False)],
            calls = [CallReadLocation ''Decliner'' loc0 False, CallReadLocation ''Faulty'' loc0 False,
                     CallReadLocation ''Taker'' loc0 False],
            rounds = []\<rparr>"
  by (simp add: faulty_engine_def handleLocation_def logger_debug_def invoke_def emit_def
                generalError_def initial_state_def faulty_def decliner_def taker_def no_hooks_def)

lemma faulty_rounds_prefix:
  "Suc 0 < length (rounds (final (read_run faulty_engine loc0)))
   \<and> rounds (final (read_run faulty_engine loc0)) ! 0 = [LocationResult loc0 False]"
  by (simp add: read_run_rounds MAX_DEPTH_def rounds_from_numeral continues_def emitted_def
                round_effect_def faulty_round1 del: process_items.simps)

lemma faulty_rounds_third:
  "2 < length (rounds (final (read_run faulty_engine loc0)))
   \<and> EntityResult loc0 ent0 \<in> set (rounds (final (read_run faulty_engine loc0)) ! 2)"
proof -
  let ?r1 = "[ErrorResult loc0 (Error (readLocation_threw faulty loc0 ''Error: r'')),
              DataResult loc0 [1, 2]]"
  have ret: "returned (round_effect faulty_engine items)" for items
    by (rule round_effect_returns [OF faulty_convertible])
  have e1: "emitted faulty_engine [LocationResult loc0 False] = ?r1"
    by (simp add: emitted_def round_effect_def faulty_round1 del: process_items.simps)
  have "EntityResult loc0 ent0
          \<in> set (newItems (final (process_item faulty_engine (DataResult loc0 [1, 2]) initial_state)))"
    by (simp add: faulty_engine_def handleData_def logger_debug_def invoke_def emit_def
                  generalError_def initial_state_def faulty_def decliner_def taker_def
                  no_hooks_def)
  then have m: "EntityResult loc0 ent0 \<in> set (emitted faulty_engine ?r1)"
    by (rule emitted_member [OF ret, rotated]) simp
  then have "emitted faulty_engine ?r1 \<noteq> []"
    by auto
  then have c2: "continues faulty_engine ?r1"
    by (simp add: continues_def ret)
  have c1: "continues faulty_engine [LocationResult loc0 False]"
    by (simp add: continues_def ret e1)
  show ?thesis
    using c1 c2 m by (simp add: read_run_rounds MAX_DEPTH_def rounds_from_numeral e1)
qed








lemma late_round:
  "process_items late_engine [LocationResult l opt] initial_state
     = Inr \<lparr>out = \<lparr>entities = [], errors = []\<rparr>,
            newItems = (if length (target l) < 9
                        then [LocationResult (l\<lparr>target := target l @ ''a''\<rparr>) False]
                        else [EntityResult l ent0]),
            logged = [Debug (reading_location l opt)],
            calls = [CallReadLocation ''Late'' l opt], rounds = []\<rparr>"
  by (simp add: late_engine_def handleLocation_def logger_debug_def invoke_def
                initial_state_def late_def no_hooks_def)

lemma late_entity_round:
  "process_items late_engine [EntityResult l ent0] initial_state
     = Inr \<lparr>out = \<lparr>entities = [(\<lparr>apiVersion = ''v1'', kind = ''API'', payload = ''p+tag''\<rparr>, l)],
                   errors = []\<rparr>,
            newItems = [ErrorResult l (Error (processEntity_threw thrower l ''Error: boom''))],
            logged = [Debug (got_entity l ent0)],
            calls = [CallProcessEntity ''Renamer'' ent0 l,
                     CallProcessEntity ''Thrower'' (ent0\<lparr>kind := ''API''\<rparr>) l,
                     CallProcessEntity ''Tagger'' (ent0\<lparr>kind := ''API''\<rparr>) l],
            rounds = []\<rparr>"
  by (simp add: late_engine_def allow_all_def handleEntity_def logger_debug_def
                invoke_def emit_def push_entity_def generalError_def initial_state_def
                processEntity_threw_def pipeline_processors late_def ent0_def)

lemma late_rounds:
  "rounds (final (read_run late_engine loc0))
     = map (\<lambda>t. [LocationResult \<lparr>ltype = ''file'', target = t\<rparr> False])
         [''a'', ''aa'', ''aaa'', ''aaaa'', ''aaaaa'', ''aaaaaa'', ''aaaaaaa'', ''aaaaaaaa'',
          ''aaaaaaaaa'']
       @ [[EntityResult \<lparr>ltype = ''file'', target = ''aaaaaaaaa''\<rparr> ent0]]"
  by (simp add: read_run_rounds MAX_DEPTH_def rounds_from_numeral continues_def emitted_def
                round_effect_def late_round late_entity_round loc0_def del: process_items.simps)

section \<open>The claims\<close>

subsection \<open>C1: failures become entries of the returned errors\<close>




subsection \<open>C2: the policy gate\<close>

text \<open>
  C2, as amended. For an entity item: if the rules enforcer disallows the entity for its
  location, one policy error for that location is appended directly to the output
  errors; nothing is pushed through \<^verbatim>\<open>emit\<close>, no hook of any processor is invoked (in
  particular no \<^verbatim>\<open>processEntity\<close>), and the output entities are left as they were.
  If the enforcer allows it, the entity is run through the entity-transform pipeline
  and, when the pipeline returns an entity, that entity, paired with the item's
  location, is appended to the output entities; the output errors are left as they
  were. When the pipeline raises instead (a \<^verbatim>\<open>catch\<close> block could not convert what
  was thrown), processing the item raises and the output is left as it was.
\<close>

theorem C2_policy_gate:
  "(\<not> isAllowed this entity loc \<longrightarrow>
      returned (process_item this (EntityResult loc entity) st)
      \<and> errors (out (final (process_item this (EntityResult loc entity) st)))
        = errors (out st) @ [(loc, Error (not_allowed_message entity loc))]
      \<and> entities (out (final (process_item this (EntityResult loc entity) st))) = entities (out st)
      \<and> calls (final (process_item this (EntityResult loc entity) st)) = calls st
      \<and> newItems (final (process_item this (EntityResult loc entity) st)) = newItems st)
   \<and> (isAllowed other entity loc
      \<and> returned_entity (handleEntity other loc entity st) = Some current \<longrightarrow>
      returned (process_item other (EntityResult loc entity) st)
      \<and> entities (out (final (process_item other (EntityResult loc entity) st)))
        = entities (out st) @ [(current, loc)]
      \<and> errors (out (final (process_item other (EntityResult loc entity) st))) = errors (out st)
      \<and> calls (final (process_item other (EntityResult loc entity) st))
        = calls st @ pipeline_calls (processors other) loc entity)
   \<and> (isAllowed third entity loc
      \<and> returned_entity (handleEntity third loc entity st) = None \<longrightarrow>
      \<not> returned (process_item third (EntityResult loc entity) st)
      \<and> out (final (process_item third (EntityResult loc entity) st)) = out st)"
proof (intro conjI impI)
  assume "\<not> isAllowed this entity loc"
  note e = process_disallowed_entity [OF this, of st]
  show "returned (process_item this (EntityResult loc entity) st)"
    unfolding e by simp
  show "errors (out (final (process_item this (EntityResult loc entity) st)))
        = errors (out st) @ [(loc, Error (not_allowed_message entity loc))]"
    unfolding e by simp
  show "entities (out (final (process_item this (EntityResult loc entity) st))) = entities (out st)"
    unfolding e by simp
  show "calls (final (process_item this (EntityResult loc entity) st)) = calls st"
    unfolding e by simp
  show "newItems (final (process_item this (EntityResult loc entity) st)) = newItems st"
    unfolding e by simp
next
  assume a: "isAllowed other entity loc
      \<and> returned_entity (handleEntity other loc entity st) = Some current"
  then have "returned (handleEntity other loc entity st)"
    by (cases "handleEntity other loc entity st") simp_all
  then have ok: "pipeline_ok (processors other) loc entity"
    by (rule handleEntity_returned)
  from a have al: "isAllowed other entity loc"
    by simp
  from a have c: "current = foldl (\<lambda>c p. transform_step p loc c) entity (processors other)"
    by (simp add: handleEntity_fold [OF ok])
  note e = process_allowed_entity [OF al ok, of st]
  show "returned (process_item other (EntityResult loc entity) st)"
    unfolding e by simp
  show "entities (out (final (process_item other (EntityResult loc entity) st)))
        = entities (out st) @ [(current, loc)]"
    unfolding e c by simp
  show "errors (out (final (process_item other (EntityResult loc entity) st))) = errors (out st)"
    unfolding e by simp
  show "calls (final (process_item other (EntityResult loc entity) st))
        = calls st @ pipeline_calls (processors other) loc entity"
    unfolding e by simp
next
  assume a: "isAllowed third entity loc
      \<and> returned_entity (handleEntity third loc entity st) = None"
  then obtain x d where h: "handleEntity third loc entity st = Inl (x, d)"
    by (cases "handleEntity third loc entity st" rule: raised_with_cases) simp_all
  from a h show "\<not> returned (process_item third (EntityResult loc entity) st)"
    by simp
  from a h show "out (final (process_item third (EntityResult loc entity) st)) = out st"
    using handleEntity_keeps [of third loc entity st] by simp
qed

theorem C2_policy_gate_witness:
  "out (final (process_item denying_engine (EntityResult loc0 ent0) initial_state))
     = \<lparr>entities = [],
        errors = [(loc0, Error ''Entity of kind Component is not allowed from location a:file'')]\<rparr>
   \<and> calls (final (process_item denying_engine (EntityResult loc0 ent0) initial_state)) = []
   \<and> out (final (process_item permitting_engine (EntityResult loc0 ent0) initial_state))
     = \<lparr>entities = [(ent0\<lparr>kind := ''API''\<rparr>, loc0)], errors = []\<rparr>
   \<and> calls (final (process_item permitting_engine (EntityResult loc0 ent0) initial_state))
     = [CallProcessEntity ''Renamer'' ent0 loc0]
   \<and> \<not> returned (process_item symbolic_engine (EntityResult loc0 ent0) initial_state)
   \<and> out (final (process_item symbolic_engine (EntityResult loc0 ent0) initial_state))
     = \<lparr>entities = [], errors = []\<rparr>"
proof -
  have h1: "\<not> isAllowed denying_engine ent0 loc0"
    by (simp add: denying_engine_def allow_none_def)
  have ok: "pipeline_ok (processors permitting_engine) loc0 ent0"
    by (simp add: permitting_engine_def processEntity_outcome_def pipeline_processors watcher_def)
  have h2: "isAllowed permitting_engine ent0 loc0
      \<and> returned_entity (handleEntity permitting_engine loc0 ent0 initial_state)
          = Some (ent0\<lparr>kind := ''API''\<rparr>)"
    by (simp add: handleEntity_fold [OF ok])
       (simp add: permitting_engine_def allow_all_def transform_step_def pipeline_processors
                  watcher_def)
  have c: "pipeline_calls (processors permitting_engine) loc0 ent0
             = [CallProcessEntity ''Renamer'' ent0 loc0]"
    by (simp add: permitting_engine_def processEntity_calls_def transform_step_def
                  pipeline_processors watcher_def)
  have h3: "isAllowed symbolic_engine ent0 loc0
      \<and> returned_entity (handleEntity symbolic_engine loc0 ent0 initial_state) = None"
    by (simp add: symbolic_engine_def allow_all_def handleEntity_def invoke_def symbolic_def
                  symbol_def no_hooks_def)
  have e: "r = \<lparr>entities = entities r, errors = errors r\<rparr>" for r :: ReadLocationResult
    by simp
  note g = C2_policy_gate [of denying_engine ent0 loc0 initial_state permitting_engine
                              "ent0\<lparr>kind := ''API''\<rparr>" symbolic_engine]
  from g h3 have 3: "\<not> returned (process_item symbolic_engine (EntityResult loc0 ent0) initial_state)
     \<and> out (final (process_item symbolic_engine (EntityResult loc0 ent0) initial_state))
       = \<lparr>entities = [], errors = []\<rparr>"
    by (simp add: initial_state_def del: process_item.simps)
  from g h1 h2 have "out (final (process_item denying_engine (EntityResult loc0 ent0) initial_state))
     = \<lparr>entities = [],
        errors = [(loc0, Error ''Entity of kind Component is not allowed from location a:file'')]\<rparr>
   \<and> calls (final (process_item denying_engine (EntityResult loc0 ent0) initial_state)) = []
   \<and> out (final (process_item permitting_engine (EntityResult loc0 ent0) initial_state))
     = \<lparr>entities = [(ent0\<lparr>kind := ''API''\<rparr>, loc0)], errors = []\<rparr>
   \<and> calls (final (process_item permitting_engine (EntityResult loc0 ent0) initial_state))
     = [CallProcessEntity ''Renamer'' ent0 loc0]"
    apply (subst e [of "out (final (process_item denying_engine (EntityResult loc0 ent0) initial_state))"])
    apply (subst e [of "out (final (process_item permitting_engine (EntityResult loc0 ent0) initial_state))"])
    apply (simp add: initial_state_sel c not_allowed_message_ent0 del: process_item.simps)
    done
  with 3 show ?thesis
    by (simp del: process_item.simps)
qed

text \<open>
  The claim as stated fails in that no \<^verbatim>\<open>ErrorResult\<close> item is emitted for a rejected
  entity: \<open>newItems\<close> stays empty, the call ends after the round of the entity, and
  the \<^verbatim>\<open>handleError\<close> hook of the chain is never invoked for the policy error.
\<close>

theorem C2_policy_error_not_emitted:
  "newItems (final (process_item denying_engine (EntityResult loc0 ent0) initial_state)) = []
   \<and> handleError_hook watcher = Some (\<lambda>err loc. ([], Inr ()))
   \<and> calls (final (read_run denying_engine loc0)) = [CallReadLocation ''Emitter'' loc0 False]
   \<and> rounds (final (read_run denying_engine loc0))
       = [[LocationResult loc0 False], [EntityResult loc0 ent0]]
   \<and> read denying_engine loc0
       = Inr \<lparr>entities = [],
              errors = [(loc0, Error ''Entity of kind Component is not allowed from location a:file'')]\<rparr>"
proof -
  have n: "newItems (final (read_run denying_engine loc0)) = []"
    by (simp add: read_run_newItems denying_rounds emitted_def round_effect_def denying_round2
             del: process_items.simps)
  have a: "newItems (final (process_item denying_engine (EntityResult loc0 ent0) initial_state)) = []"
    by (simp add: denying_engine_def allow_none_def push_error_def initial_state_def)
  have b: "handleError_hook watcher = Some (\<lambda>err loc. ([], Inr ()))"
    by (simp add: watcher_def no_hooks_def)
  have c: "calls (final (read_run denying_engine loc0)) = [CallReadLocation ''Emitter'' loc0 False]"
    by (simp add: read_run_calls denying_rounds round_effect_def denying_round1 denying_round2
             del: process_items.simps)
  have t: "returned (read_run denying_engine loc0)"
    by (simp add: read_run_returned denying_rounds round_effect_def denying_round2
             del: process_items.simps)
  have e: "entities (out (final (read_run denying_engine loc0))) = []"
    by (simp add: read_run_entities denying_rounds round_effect_def denying_round1 denying_round2
             del: process_items.simps)
  have d: "errors (out (final (read_run denying_engine loc0)))
       = [(loc0, Error ''Entity of kind Component is not allowed from location a:file'')]"
    by (simp add: read_run_errors n denying_rounds round_effect_def denying_round1 denying_round2
                  not_allowed_message_ent0 del: process_items.simps)
  from a b c denying_rounds read_result_eq [OF t e d] show ?thesis
    by blast
qed

subsection \<open>C3: the round bound\<close>



subsection \<open>C4: first match wins\<close>

text \<open>
  C4. For a location item (and in the same way for a data item with \<^verbatim>\<open>parseData\<close>):
  the processors that implement \<^verbatim>\<open>readLocation\<close> are tried in registration order.
  If \<open>p\<close> is the first processor whose hook returns the handled signal (the ones before
  it have no hook, declined, or threw something the \<^verbatim>\<open>catch\<close> block could report),
  the method returns, the hooks invoked are exactly those of the capable processors up
  to and including \<open>p\<close>, in that order, and none of a processor registered after
  \<open>p\<close>; the items pushed are what these processors contributed, and no
  unhandled-input error. If every capable processor declines, every capable processor is
  invoked, in order, and the engine pushes, after whatever the hooks emitted themselves,
  exactly one unhandled-input error for the item's location.
\<close>

theorem C4_first_match_wins:
  "(processors this = pre @ p # post
      \<and> (\<forall>q\<in>set pre. passes (readLocation_outcome q loc optional))
      \<and> readLocation_outcome p loc optional = Some (Inr True) \<longrightarrow>
      returned (handleLocation this loc optional st)
      \<and> calls (final (handleLocation this loc optional st))
        = calls st @ concat (map (\<lambda>q. readLocation_calls q loc optional) (pre @ [p]))
      \<and> newItems (final (handleLocation this loc optional st))
        = newItems st @ concat (map (\<lambda>q. readLocation_items q loc optional) (pre @ [p])))
   \<and> ((\<forall>q\<in>set (processors other). readLocation_outcome q loc optional \<in> {None, Some (Inr False)}) \<longrightarrow>
      returned (handleLocation other loc optional st)
      \<and> calls (final (handleLocation other loc optional st))
        = calls st @ concat (map (\<lambda>q. readLocation_calls q loc optional) (processors other))
      \<and> newItems (final (handleLocation other loc optional st))
        = newItems st @ concat (map (\<lambda>q. readLocation_emitted q loc optional) (processors other))
            @ [ErrorResult loc (InputError (no_processor_read loc))])
   \<and> (processors this = pre @ p # post
      \<and> (\<forall>q\<in>set pre. passes (parseData_outcome q d loc))
      \<and> parseData_outcome p d loc = Some (Inr True) \<longrightarrow>
      returned (handleData this loc d st)
      \<and> calls (final (handleData this loc d st))
        = calls st @ concat (map (\<lambda>q. parseData_calls q d loc) (pre @ [p]))
      \<and> newItems (final (handleData this loc d st))
        = newItems st @ concat (map (\<lambda>q. parseData_items q d loc) (pre @ [p])))
   \<and> ((\<forall>q\<in>set (processors other). parseData_outcome q d loc \<in> {None, Some (Inr False)}) \<longrightarrow>
      returned (handleData other loc d st)
      \<and> calls (final (handleData other loc d st))
        = calls st @ concat (map (\<lambda>q. parseData_calls q d loc) (processors other))
      \<and> newItems (final (handleData other loc d st))
        = newItems st @ concat (map (\<lambda>q. parseData_emitted q d loc) (processors other))
            @ [ErrorResult loc (InputError (no_processor_parse loc))])"
proof (intro conjI impI)
  assume a: "processors this = pre @ p # post
      \<and> (\<forall>q\<in>set pre. passes (readLocation_outcome q loc optional))
      \<and> readLocation_outcome p loc optional = Some (Inr True)"
  then have e: "handleLocation this loc optional st =
           Inr (st\<lparr>newItems := newItems st @ concat (map (\<lambda>q. readLocation_items q loc optional) (pre @ [p])),
                   logged := logged st @ [Debug (reading_location loc optional)],
                   calls := calls st @ concat (map (\<lambda>q. readLocation_calls q loc optional) (pre @ [p]))\<rparr>)"
    using handleLocation_first_match [of this pre p post loc optional st] by blast
  show "returned (handleLocation this loc optional st)"
    unfolding e by simp
  show "calls (final (handleLocation this loc optional st))
        = calls st @ concat (map (\<lambda>q. readLocation_calls q loc optional) (pre @ [p]))"
    unfolding e by simp
  show "newItems (final (handleLocation this loc optional st))
        = newItems st @ concat (map (\<lambda>q. readLocation_items q loc optional) (pre @ [p]))"
    unfolding e by simp
next
  assume a: "\<forall>q\<in>set (processors other). readLocation_outcome q loc optional \<in> {None, Some (Inr False)}"
  then have n: "\<forall>q\<in>set (processors other). passes (readLocation_outcome q loc optional)"
    by auto
  have i: "map (\<lambda>q. readLocation_items q loc optional) (processors other)
             = map (\<lambda>q. readLocation_emitted q loc optional) (processors other)"
    using a by (auto simp: readLocation_items_def)
  note e = handleLocation_unhandled [OF n, of st]
  show "returned (handleLocation other loc optional st)"
    unfolding e by simp
  show "calls (final (handleLocation other loc optional st))
        = calls st @ concat (map (\<lambda>q. readLocation_calls q loc optional) (processors other))"
    unfolding e by simp
  show "newItems (final (handleLocation other loc optional st))
        = newItems st @ concat (map (\<lambda>q. readLocation_emitted q loc optional) (processors other))
            @ [ErrorResult loc (InputError (no_processor_read loc))]"
    unfolding e i by simp
next
  assume a: "processors this = pre @ p # post
      \<and> (\<forall>q\<in>set pre. passes (parseData_outcome q d loc))
      \<and> parseData_outcome p d loc = Some (Inr True)"
  then have e: "handleData this loc d st =
           Inr (st\<lparr>newItems := newItems st @ concat (map (\<lambda>q. parseData_items q d loc) (pre @ [p])),
                   logged := logged st @ [Debug (parsing_data loc d)],
                   calls := calls st @ concat (map (\<lambda>q. parseData_calls q d loc) (pre @ [p]))\<rparr>)"
    using handleData_first_match [of this pre p post d loc st] by blast
  show "returned (handleData this loc d st)"
    unfolding e by simp
  show "calls (final (handleData this loc d st))
        = calls st @ concat (map (\<lambda>q. parseData_calls q d loc) (pre @ [p]))"
    unfolding e by simp
  show "newItems (final (handleData this loc d st))
        = newItems st @ concat (map (\<lambda>q. parseData_items q d loc) (pre @ [p]))"
    unfolding e by simp
next
  assume a: "\<forall>q\<in>set (processors other). parseData_outcome q d loc \<in> {None, Some (Inr False)}"
  then have n: "\<forall>q\<in>set (processors other). passes (parseData_outcome q d loc)"
    by auto
  have i: "map (\<lambda>q. parseData_items q d loc) (processors other)
             = map (\<lambda>q. parseData_emitted q d loc) (processors other)"
    using a by (auto simp: parseData_items_def)
  note e = handleData_unhandled [OF n, of st]
  show "returned (handleData other loc d st)"
    unfolding e by simp
  show "calls (final (handleData other loc d st))
        = calls st @ concat (map (\<lambda>q. parseData_calls q d loc) (processors other))"
    unfolding e by simp
  show "newItems (final (handleData other loc d st))
        = newItems st @ concat (map (\<lambda>q. parseData_emitted q d loc) (processors other))
            @ [ErrorResult loc (InputError (no_processor_parse loc))]"
    unfolding e i by simp
qed

theorem C4_first_match_wins_witness:
  "calls (final (handleLocation first_match_engine loc0 False initial_state))
     = [CallReadLocation ''Decliner'' loc0 False, CallReadLocation ''Taker'' loc0 False]
   \<and> newItems (final (handleLocation first_match_engine loc0 False initial_state))
     = [DataResult loc0 [1, 2]]
   \<and> calls (final (handleLocation declining_engine loc0 False initial_state))
     = [CallReadLocation ''Decliner'' loc0 False, CallReadLocation ''Decliner'' loc0 False]
   \<and> newItems (final (handleLocation declining_engine loc0 False initial_state))
     = [ErrorResult loc0 (InputError (no_processor_read loc0))]
   \<and> calls (final (handleData first_match_engine loc0 [7] initial_state))
     = [CallParseData ''Decliner'' [7] loc0, CallParseData ''Taker'' [7] loc0]
   \<and> newItems (final (handleData first_match_engine loc0 [7] initial_state))
     = [EntityResult loc0 ent0]
   \<and> calls (final (handleData declining_engine loc0 [7] initial_state))
     = [CallParseData ''Decliner'' [7] loc0, CallParseData ''Decliner'' [7] loc0]
   \<and> newItems (final (handleData declining_engine loc0 [7] initial_state))
     = [ErrorResult loc0 (InputError (no_processor_parse loc0))]"
proof -
  have h1: "processors first_match_engine = [decliner, no_hooks ''Idle''] @ taker # [latecomer]
      \<and> (\<forall>q\<in>set [decliner, no_hooks ''Idle'']. passes (readLocation_outcome q loc0 False))
      \<and> readLocation_outcome taker loc0 False = Some (Inr True)"
    by (simp add: first_match_engine_def readLocation_outcome_def example_processors)
  have h2: "\<forall>q\<in>set (processors declining_engine).
              readLocation_outcome q loc0 False \<in> {None, Some (Inr False)}"
    by (simp add: declining_engine_def readLocation_outcome_def example_processors)
  have h3: "processors first_match_engine = [decliner, no_hooks ''Idle''] @ taker # [latecomer]
      \<and> (\<forall>q\<in>set [decliner, no_hooks ''Idle'']. passes (parseData_outcome q [7] loc0))
      \<and> parseData_outcome taker [7] loc0 = Some (Inr True)"
    by (simp add: first_match_engine_def parseData_outcome_def example_processors)
  have h4: "\<forall>q\<in>set (processors declining_engine).
              parseData_outcome q [7] loc0 \<in> {None, Some (Inr False)}"
    by (simp add: declining_engine_def parseData_outcome_def example_processors)
  from C4_first_match_wins
         [of first_match_engine "[decliner, no_hooks ''Idle'']" taker "[latecomer]" loc0 False
             initial_state declining_engine "[7]"]
       h1 h2 h3 h4
  show ?thesis
    by (simp add: initial_state_sel declining_engine_def
                  readLocation_calls_def readLocation_items_def readLocation_emitted_def
                  readLocation_outcome_def
                  parseData_calls_def parseData_items_def parseData_emitted_def
                  parseData_outcome_def example_processors)
qed

subsection \<open>C5: the entity-transform pipeline\<close>

text \<open>
  C5, as amended. For an allowed entity item the pipeline invokes every processor that
  implements \<^verbatim>\<open>processEntity\<close>, in registration order. Each receives the running
  entity: the value returned by the nearest earlier capable processor that did not
  throw, or the item's entity when there is none. A hook that throws leaves the running
  entity as it was. The pipeline returns exactly when every value thrown along it can
  be converted to a string, and then the entity recorded in the output, paired with the
  item's location, is the running entity after the last processor (a left fold of
  \<open>transform_step\<close> over the chain).
\<close>

theorem C5_pipeline_fold:
  "(returned (handleEntity this loc entity st) \<longleftrightarrow> pipeline_ok (processors this) loc entity)
   \<and> (isAllowed this entity loc \<and> pipeline_ok (processors this) loc entity \<longrightarrow>
       returned (process_item this (EntityResult loc entity) st)
       \<and> entities (out (final (process_item this (EntityResult loc entity) st)))
         = entities (out st)
           @ [(foldl (\<lambda>current p. transform_step p loc current) entity (processors this), loc)]
       \<and> calls (final (process_item this (EntityResult loc entity) st))
         = calls st @ pipeline_calls (processors this) loc entity)"
proof (intro conjI impI)
  show "returned (handleEntity this loc entity st) \<longleftrightarrow> pipeline_ok (processors this) loc entity"
    using handleEntity_returned [of this loc entity st] handleEntity_fold [of this loc entity st]
    by auto
next
  assume "isAllowed this entity loc \<and> pipeline_ok (processors this) loc entity"
  then have e: "process_item this (EntityResult loc entity) st =
     Inr (st\<lparr>out := (out st)\<lparr>entities := entities (out st)
                  @ [(foldl (\<lambda>c p. transform_step p loc c) entity (processors this), loc)]\<rparr>,
             newItems := newItems st @ pipeline_items (processors this) loc entity,
             logged := logged st @ [Debug (got_entity loc entity)],
             calls := calls st @ pipeline_calls (processors this) loc entity\<rparr>)"
    using process_allowed_entity by blast
  show "returned (process_item this (EntityResult loc entity) st)"
    unfolding e by simp
  show "entities (out (final (process_item this (EntityResult loc entity) st)))
         = entities (out st)
           @ [(foldl (\<lambda>current p. transform_step p loc current) entity (processors this), loc)]"
    unfolding e by simp
  show "calls (final (process_item this (EntityResult loc entity) st))
         = calls st @ pipeline_calls (processors this) loc entity"
    unfolding e by simp
qed

theorem C5_pipeline_fold_witness:
  "entities (out (final (process_item middle_throws_engine (EntityResult loc0 ent0) initial_state)))
     = [(\<lparr>apiVersion = ''v1'', kind = ''API'', payload = ''p+tag''\<rparr>, loc0)]
   \<and> calls (final (process_item middle_throws_engine (EntityResult loc0 ent0) initial_state))
     = [CallProcessEntity ''Renamer'' ent0 loc0,
        CallProcessEntity ''Thrower'' (ent0\<lparr>kind := ''API''\<rparr>) loc0,
        CallProcessEntity ''Tagger'' (ent0\<lparr>kind := ''API''\<rparr>) loc0]"
proof -
  have h: "isAllowed middle_throws_engine ent0 loc0
      \<and> pipeline_ok (processors middle_throws_engine) loc0 ent0"
    by (simp add: middle_throws_engine_def allow_all_def processEntity_outcome_def
                  transform_step_def pipeline_processors)
  from C5_pipeline_fold [of middle_throws_engine loc0 ent0 initial_state] h
  show ?thesis
    by (simp add: initial_state_sel middle_throws_engine_def transform_step_def
                  processEntity_calls_def pipeline_processors ent0_def
             del: process_item.simps)
qed

text \<open>
  The claim as stated fails when the last capable processor throws: it returned no
  value, and the entity recorded is the one returned by the processor before it.
\<close>

theorem C5_last_processor_throws:
  "last (processors last_throws_engine) = thrower
   \<and> processEntity_outcome thrower (ent0\<lparr>kind := ''API''\<rparr>) loc0 = Some (Inl (Thrown ''Error: boom''))
   \<and> calls (final (process_item last_throws_engine (EntityResult loc0 ent0) initial_state))
     = [CallProcessEntity ''Renamer'' ent0 loc0,
        CallProcessEntity ''Thrower'' (ent0\<lparr>kind := ''API''\<rparr>) loc0]
   \<and> entities (out (final (process_item last_throws_engine (EntityResult loc0 ent0) initial_state)))
     = [(ent0\<lparr>kind := ''API''\<rparr>, loc0)]"
  by (simp add: last_throws_engine_def allow_all_def handleEntity_def logger_debug_def
                invoke_def emit_def push_entity_def initial_state_def processEntity_outcome_def
                pipeline_processors)

subsection \<open>C6: a throwing hook is isolated\<close>

text \<open>
  C6, as amended. For each of the four hooks: if the hook of a processor \<open>p\<close> is
  reached and throws a value that the \<^verbatim>\<open>catch\<close> block can convert to a string, the
  exception is caught there; after the items the hook had already emitted, a new
  \<^verbatim>\<open>ErrorResult\<close> carrying the item's location and a message naming \<open>p\<close> is pushed
  to \<open>newItems\<close>, and the loop over the chain continues with the processors registered
  after \<open>p\<close> (for \<^verbatim>\<open>processEntity\<close>, with the running entity unchanged). If no hook
  of the chain ever throws a value that cannot be converted, processing any item
  returns, so every item of a round is processed, each adding its own effect to the
  state whatever the hooks did for its siblings, and the call returns: the engine loop
  is not aborted. What the item produces besides the error is kept: an allowed entity
  whose pipeline faults is still appended to the output entities, next to the error
  item, and is an entry of the returned entities when the call returns. The wrapped
  error is an entry of the returned errors whenever the call returns and the round in
  which it was emitted is followed by another round.
\<close>

theorem C6_fault_isolation:
  "(processors this = pre @ p # post
      \<and> (\<forall>q\<in>set pre. passes (readLocation_outcome q loc optional))
      \<and> readLocation_outcome p loc optional = Some (Inl (Thrown thrown_text)) \<longrightarrow>
      handleLocation_loop (processors this) loc optional st =
        handleLocation_loop post loc optional
          (st\<lparr>newItems := newItems st
                 @ concat (map (\<lambda>q. readLocation_items q loc optional) pre)
                 @ readLocation_emitted p loc optional
                 @ [ErrorResult loc (Error (readLocation_threw p loc thrown_text))],
              calls := calls st
                 @ concat (map (\<lambda>q. readLocation_calls q loc optional) pre)
                 @ [CallReadLocation (constructor_name p) loc optional]\<rparr>))
   \<and> (processors this = pre @ p # post
      \<and> (\<forall>q\<in>set pre. passes (parseData_outcome q d loc))
      \<and> parseData_outcome p d loc = Some (Inl (Thrown thrown_text)) \<longrightarrow>
      handleData_loop (processors this) d loc st =
        handleData_loop post d loc
          (st\<lparr>newItems := newItems st
                 @ concat (map (\<lambda>q. parseData_items q d loc) pre)
                 @ parseData_emitted p d loc
                 @ [ErrorResult loc (Error (parseData_threw p loc thrown_text))],
              calls := calls st
                 @ concat (map (\<lambda>q. parseData_calls q d loc) pre)
                 @ [CallParseData (constructor_name p) d loc]\<rparr>))
   \<and> (processors this = pre @ p # post
      \<and> pipeline_ok pre loc entity
      \<and> processEntity_outcome p (foldl (\<lambda>c q. transform_step q loc c) entity pre) loc
          = Some (Inl (Thrown thrown_text)) \<longrightarrow>
      handleEntity_loop (processors this) loc entity st =
        handleEntity_loop post loc (foldl (\<lambda>c q. transform_step q loc c) entity pre)
          (st\<lparr>newItems := newItems st
                 @ pipeline_items pre loc entity
                 @ processEntity_emitted p loc (foldl (\<lambda>c q. transform_step q loc c) entity pre)
                 @ [ErrorResult loc (Error (processEntity_threw p loc thrown_text))],
              calls := calls st
                 @ pipeline_calls pre loc entity
                 @ [CallProcessEntity (constructor_name p)
                      (foldl (\<lambda>c q. transform_step q loc c) entity pre) loc]\<rparr>))
   \<and> (processors this = pre @ p # post
      \<and> (\<forall>q\<in>set pre. outcome_ok (handleError_outcome q err loc))
      \<and> handleError_outcome p err loc = Some (Inl (Thrown thrown_text)) \<longrightarrow>
      handleError_loop (processors this) loc err st =
        handleError_loop post loc err
          (st\<lparr>newItems := newItems st
                 @ concat (map (\<lambda>q. handleError_items q err loc) pre)
                 @ handleError_emitted p err loc
                 @ [ErrorResult loc (Error (handleError_threw p loc thrown_text))],
              calls := calls st
                 @ concat (map (\<lambda>q. handleError_calls q err loc) pre)
                 @ [CallHandleError (constructor_name p) err loc]\<rparr>))
   \<and> ((\<forall>q\<in>set (processors this). throws_convertible q) \<longrightarrow>
        returned (process_item this item st)
        \<and> process_items this items st
            = Inr (foldl st_append st
                     (map (\<lambda>sibling. final (process_item this sibling initial_state)) items))
        \<and> read this start = Inr (out (final (read_run this start))))
   \<and> (processors this = pre @ p # post
      \<and> isAllowed this entity loc
      \<and> pipeline_ok (processors this) loc entity
      \<and> processEntity_outcome p (foldl (\<lambda>c q. transform_step q loc c) entity pre) loc
          = Some (Inl (Thrown thrown_text)) \<longrightarrow>
      entities (out (final (process_item this (EntityResult loc entity) st)))
        = entities (out st)
          @ [(foldl (\<lambda>c q. transform_step q loc c)
                (foldl (\<lambda>c q. transform_step q loc c) entity pre) post, loc)]
      \<and> ErrorResult loc (Error (processEntity_threw p loc thrown_text))
          \<in> set (newItems (final (process_item this (EntityResult loc entity) st)))
      \<and> (read this start = Inr result
           \<and> M < length (rounds (final (read_run this start)))
           \<and> EntityResult loc entity \<in> set (rounds (final (read_run this start)) ! M) \<longrightarrow>
         (foldl (\<lambda>c q. transform_step q loc c)
            (foldl (\<lambda>c q. transform_step q loc c) entity pre) post, loc)
           \<in> set (entities result)))
   \<and> (read this start = Inr result
        \<and> Suc N < length (rounds (final (read_run this start)))
        \<and> item \<in> set (rounds (final (read_run this start)) ! N)
        \<and> ErrorResult loc (Error message)
            \<in> set (newItems (final (process_item this item initial_state))) \<longrightarrow>
      (loc, Error message) \<in> set (errors result))"
proof (intro conjI impI)
  assume a: "processors this = pre @ p # post
      \<and> (\<forall>q\<in>set pre. passes (readLocation_outcome q loc optional))
      \<and> readLocation_outcome p loc optional = Some (Inl (Thrown thrown_text))"
  then have n: "\<forall>q\<in>set (pre @ [p]). passes (readLocation_outcome q loc optional)"
    by simp
  show "handleLocation_loop (processors this) loc optional st =
        handleLocation_loop post loc optional
          (st\<lparr>newItems := newItems st
                 @ concat (map (\<lambda>q. readLocation_items q loc optional) pre)
                 @ readLocation_emitted p loc optional
                 @ [ErrorResult loc (Error (readLocation_threw p loc thrown_text))],
              calls := calls st
                 @ concat (map (\<lambda>q. readLocation_calls q loc optional) pre)
                 @ [CallReadLocation (constructor_name p) loc optional]\<rparr>)"
    using handleLocation_loop_skip [OF n, of post st] a
    by (simp add: readLocation_items_thrown)
next
  assume a: "processors this = pre @ p # post
      \<and> (\<forall>q\<in>set pre. passes (parseData_outcome q d loc))
      \<and> parseData_outcome p d loc = Some (Inl (Thrown thrown_text))"
  then have n: "\<forall>q\<in>set (pre @ [p]). passes (parseData_outcome q d loc)"
    by simp
  show "handleData_loop (processors this) d loc st =
        handleData_loop post d loc
          (st\<lparr>newItems := newItems st
                 @ concat (map (\<lambda>q. parseData_items q d loc) pre)
                 @ parseData_emitted p d loc
                 @ [ErrorResult loc (Error (parseData_threw p loc thrown_text))],
              calls := calls st
                 @ concat (map (\<lambda>q. parseData_calls q d loc) pre)
                 @ [CallParseData (constructor_name p) d loc]\<rparr>)"
    using handleData_loop_skip [OF n, of post st] a
    by (simp add: parseData_items_thrown)
next
  let ?cur = "foldl (\<lambda>c q. transform_step q loc c) entity pre"
  assume a: "processors this = pre @ p # post
      \<and> pipeline_ok pre loc entity
      \<and> processEntity_outcome p ?cur loc = Some (Inl (Thrown thrown_text))"
  then have chain: "processors this = (pre @ [p]) @ post"
    and thr: "processEntity_outcome p ?cur loc = Some (Inl (Thrown thrown_text))"
    and ok: "pipeline_ok (pre @ [p]) loc entity"
    by (simp_all add: pipeline_ok_append)
  show "handleEntity_loop (processors this) loc entity st =
        handleEntity_loop post loc ?cur
          (st\<lparr>newItems := newItems st
                 @ pipeline_items pre loc entity
                 @ processEntity_emitted p loc ?cur
                 @ [ErrorResult loc (Error (processEntity_threw p loc thrown_text))],
              calls := calls st
                 @ pipeline_calls pre loc entity
                 @ [CallProcessEntity (constructor_name p) ?cur loc]\<rparr>)"
    unfolding chain handleEntity_loop_append [of "pre @ [p]" post]
    by (simp add: handleEntity_loop_fold [OF ok] pipeline_items_append pipeline_calls_append
                  processEntity_items_thrown [OF thr])
next
  assume a: "processors this = pre @ p # post
      \<and> (\<forall>q\<in>set pre. outcome_ok (handleError_outcome q err loc))
      \<and> handleError_outcome p err loc = Some (Inl (Thrown thrown_text))"
  then have chain: "processors this = (pre @ [p]) @ post"
    and thr: "handleError_outcome p err loc = Some (Inl (Thrown thrown_text))"
    and ok: "\<forall>q\<in>set (pre @ [p]). outcome_ok (handleError_outcome q err loc)"
    by simp_all
  show "handleError_loop (processors this) loc err st =
        handleError_loop post loc err
          (st\<lparr>newItems := newItems st
                 @ concat (map (\<lambda>q. handleError_items q err loc) pre)
                 @ handleError_emitted p err loc
                 @ [ErrorResult loc (Error (handleError_threw p loc thrown_text))],
              calls := calls st
                 @ concat (map (\<lambda>q. handleError_calls q err loc) pre)
                 @ [CallHandleError (constructor_name p) err loc]\<rparr>)"
    unfolding chain handleError_loop_append [of "pre @ [p]" post]
    by (simp add: handleError_loop_all [OF ok] handleError_items_thrown [OF thr])
next
  assume conv: "\<forall>q\<in>set (processors this). throws_convertible q"
  show "returned (process_item this item st)"
    using conv by (rule process_item_returns)
  show "process_items this items st
            = Inr (foldl st_append st
                     (map (\<lambda>sibling. final (process_item this sibling initial_state)) items))"
    by (rule process_items_all) (simp add: process_item_returns [OF conv] del: process_item.simps)
  show "read this start = Inr (out (final (read_run this start)))"
    by (rule read_returned) (rule read_run_returns [OF conv])
next
  let ?step = "\<lambda>c q. transform_step q loc c"
  let ?cur = "foldl ?step entity pre"
  assume a: "processors this = pre @ p # post
      \<and> isAllowed this entity loc
      \<and> pipeline_ok (processors this) loc entity
      \<and> processEntity_outcome p ?cur loc = Some (Inl (Thrown thrown_text))"
  then have chain: "processors this = pre @ p # post" and al: "isAllowed this entity loc"
    and ok: "pipeline_ok (processors this) loc entity"
    and thr: "processEntity_outcome p ?cur loc = Some (Inl (Thrown thrown_text))"
    by blast+
  have fold: "foldl ?step entity (processors this) = foldl ?step ?cur post"
    by (simp add: chain processEntity_items_thrown(3) [OF thr])
  have item: "ErrorResult loc (Error (processEntity_threw p loc thrown_text))
                \<in> set (pipeline_items (processors this) loc entity)"
    by (simp add: chain pipeline_items_append processEntity_items_thrown(1) [OF thr])
  note pe = process_allowed_entity [OF al ok, of st]
  show "entities (out (final (process_item this (EntityResult loc entity) st)))
        = entities (out st) @ [(foldl ?step ?cur post, loc)]"
    unfolding pe by (simp add: fold)
  show "ErrorResult loc (Error (processEntity_threw p loc thrown_text))
          \<in> set (newItems (final (process_item this (EntityResult loc entity) st)))"
    unfolding pe using item by simp
  assume r: "read this start = Inr result
           \<and> M < length (rounds (final (read_run this start)))
           \<and> EntityResult loc entity \<in> set (rounds (final (read_run this start)) ! M)"
  then have ret: "returned (read_run this start)"
    and o: "result = out (final (read_run this start))"
    and n: "M < length (rounds (final (read_run this start)))"
    and m: "EntityResult loc entity \<in> set (rounds (final (read_run this start)) ! M)"
    by (simp_all add: read_result)
  have "(foldl ?step ?cur post, loc)
          \<in> set (entities (out (final (process_item this (EntityResult loc entity) initial_state))))"
    unfolding process_allowed_entity [OF al ok] by (simp add: fold)
  with ret n m show "(foldl ?step ?cur post, loc) \<in> set (entities result)"
    unfolding o by (rule read_entities_member)
next
  assume a: "read this start = Inr result
        \<and> Suc N < length (rounds (final (read_run this start)))
        \<and> item \<in> set (rounds (final (read_run this start)) ! N)
        \<and> ErrorResult loc (Error message)
            \<in> set (newItems (final (process_item this item initial_state)))"
  then have r: "returned (read_run this start)" and o: "result = out (final (read_run this start))"
    by (simp_all add: read_result)
  from a show "(loc, Error message) \<in> set (errors result)"
    unfolding o using read_emitted_error_member [OF r] by blast
qed

theorem C6_fault_isolation_witness:
  "handleLocation_loop (processors faulty_engine) loc0 False initial_state
     = Inr (True, initial_state
          \<lparr>newItems := [ErrorResult loc0 (Error
                           ''Processor Faulty threw an error while reading location file a, Error: r''),
                        DataResult loc0 [1, 2]],
           calls := [CallReadLocation ''Decliner'' loc0 False, CallReadLocation ''Faulty'' loc0 False,
                     CallReadLocation ''Taker'' loc0 False]\<rparr>)
   \<and> handleData_loop (processors faulty_engine) [7] loc0 initial_state
     = Inr (True, initial_state
          \<lparr>newItems := [ErrorResult loc0 (Error
                           ''Processor Faulty threw an error while parsing file a, Error: r''),
                        EntityResult loc0 ent0],
           calls := [CallParseData ''Decliner'' [7] loc0, CallParseData ''Faulty'' [7] loc0,
                     CallParseData ''Taker'' [7] loc0]\<rparr>)
   \<and> handleEntity_loop (processors faulty_engine) loc0 ent0 initial_state
     = Inr (ent0, initial_state
          \<lparr>newItems := [ErrorResult loc0 (Error
                           ''Processor Faulty threw an error while processing entity at file a, Error: r'')],
           calls := [CallProcessEntity ''Faulty'' ent0 loc0]\<rparr>)
   \<and> handleError_loop (processors faulty_engine) loc0 (Error ''x'') initial_state
     = Inr (initial_state
          \<lparr>newItems := [ErrorResult loc0 (Error
                           ''Processor Faulty threw an error while handling another error at file a, Error: r'')],
           calls := [CallHandleError ''Faulty'' (Error ''x'') loc0]\<rparr>)
   \<and> returned (process_items faulty_engine
                  [LocationResult loc0 False, EntityResult loc0 ent0, ErrorResult loc0 (Error ''x'')]
                  initial_state)
   \<and> read faulty_engine loc0 = Inr (out (final (read_run faulty_engine loc0)))
   \<and> entities (out (final (process_item faulty_engine (EntityResult loc0 ent0) initial_state)))
       = [(ent0, loc0)]
   \<and> (ent0, loc0) \<in> set (entities (out (final (read_run faulty_engine loc0))))
   \<and> (loc0, Error ''Processor Faulty threw an error while reading location file a, Error: r'')
        \<in> set (errors (out (final (read_run faulty_engine loc0))))"
proof -
  let ?result = "out (final (read_run faulty_engine loc0))"
  let ?items = "[LocationResult loc0 False, EntityResult loc0 ent0, ErrorResult loc0 (Error ''x'')]"
  have h1: "processors faulty_engine = [decliner] @ faulty # [taker]
      \<and> (\<forall>q\<in>set [decliner]. passes (readLocation_outcome q loc0 False))
      \<and> readLocation_outcome faulty loc0 False = Some (Inl (Thrown ''Error: r''))"
    by (simp add: faulty_engine_def readLocation_outcome_def faulty_def decliner_def no_hooks_def)
  have h2: "processors faulty_engine = [decliner] @ faulty # [taker]
      \<and> (\<forall>q\<in>set [decliner]. passes (parseData_outcome q [7] loc0))
      \<and> parseData_outcome faulty [7] loc0 = Some (Inl (Thrown ''Error: r''))"
    by (simp add: faulty_engine_def parseData_outcome_def faulty_def decliner_def no_hooks_def)
  have f: "foldl (\<lambda>c q. transform_step q loc0 c) ent0 [decliner] = ent0"
    by (simp add: transform_step_def decliner_def no_hooks_def)
  have g: "foldl (\<lambda>c q. transform_step q loc0 c) ent0 [taker] = ent0"
    by (simp add: transform_step_def taker_def no_hooks_def)
  have h3: "processors faulty_engine = [decliner] @ faulty # [taker]
      \<and> pipeline_ok [decliner] loc0 ent0
      \<and> processEntity_outcome faulty (foldl (\<lambda>c q. transform_step q loc0 c) ent0 [decliner]) loc0
          = Some (Inl (Thrown ''Error: r''))"
    by (simp add: faulty_engine_def processEntity_outcome_def faulty_def decliner_def no_hooks_def)
  have h4: "processors faulty_engine = [decliner] @ faulty # [taker]
      \<and> (\<forall>q\<in>set [decliner]. outcome_ok (handleError_outcome q (Error ''x'') loc0))
      \<and> handleError_outcome faulty (Error ''x'') loc0 = Some (Inl (Thrown ''Error: r''))"
    by (simp add: faulty_engine_def handleError_outcome_def faulty_def decliner_def no_hooks_def)
  have h5: "\<forall>q\<in>set (processors faulty_engine). throws_convertible q"
    by (rule faulty_convertible)
  have h6: "processors faulty_engine = [decliner] @ faulty # [taker]
      \<and> isAllowed faulty_engine ent0 loc0
      \<and> pipeline_ok (processors faulty_engine) loc0 ent0
      \<and> processEntity_outcome faulty (foldl (\<lambda>c q. transform_step q loc0 c) ent0 [decliner]) loc0
          = Some (Inl (Thrown ''Error: r''))"
    using h3 pipeline_ok_convertible [OF faulty_convertible, of loc0 ent0]
    by (simp add: faulty_engine_def allow_all_def)
  note c = C6_fault_isolation
         [where this = faulty_engine and pre = "[decliner]" and p = faulty and post = "[taker]"
            and loc = loc0 and optional = False and thrown_text = "''Error: r''"
            and st = initial_state and d = "[7]" and entity = ent0 and err = "Error ''x''"
            and N = 0 and M = 2 and start = loc0 and item = "LocationResult loc0 False"
            and items = ?items and result = ?result
            and message = "readLocation_threw faulty loc0 ''Error: r''"]
  from c h5 have r: "read faulty_engine loc0 = Inr ?result"
    and 6: "returned (process_items faulty_engine ?items initial_state)"
    by simp_all
  have h7: "read faulty_engine loc0 = Inr ?result
        \<and> Suc 0 < length (rounds (final (read_run faulty_engine loc0)))
        \<and> LocationResult loc0 False \<in> set (rounds (final (read_run faulty_engine loc0)) ! 0)
        \<and> ErrorResult loc0 (Error (readLocation_threw faulty loc0 ''Error: r''))
            \<in> set (newItems (final (process_item faulty_engine (LocationResult loc0 False) initial_state)))"
  proof -
    have "ErrorResult loc0 (Error (readLocation_threw faulty loc0 ''Error: r''))
            \<in> set (newItems (final (process_item faulty_engine (LocationResult loc0 False) initial_state)))"
      by (simp add: faulty_engine_def handleLocation_def logger_debug_def invoke_def emit_def
                    generalError_def initial_state_def faulty_def decliner_def taker_def
                    no_hooks_def)
    with faulty_rounds_prefix r show ?thesis
      by (simp del: process_item.simps)
  qed
  from c h1 have 1: "handleLocation_loop (processors faulty_engine) loc0 False initial_state
     = Inr (True, initial_state
          \<lparr>newItems := [ErrorResult loc0 (Error (readLocation_threw faulty loc0 ''Error: r'')),
                        DataResult loc0 [1, 2]],
           calls := [CallReadLocation ''Decliner'' loc0 False, CallReadLocation ''Faulty'' loc0 False,
                     CallReadLocation ''Taker'' loc0 False]\<rparr>)"
    by (simp add: initial_state_sel readLocation_items_def readLocation_emitted_def
                  readLocation_outcome_def readLocation_calls_def invoke_def
                  faulty_def decliner_def taker_def no_hooks_def)
  from c h2 have 2: "handleData_loop (processors faulty_engine) [7] loc0 initial_state
     = Inr (True, initial_state
          \<lparr>newItems := [ErrorResult loc0 (Error (parseData_threw faulty loc0 ''Error: r'')),
                        EntityResult loc0 ent0],
           calls := [CallParseData ''Decliner'' [7] loc0, CallParseData ''Faulty'' [7] loc0,
                     CallParseData ''Taker'' [7] loc0]\<rparr>)"
    by (simp add: initial_state_sel parseData_items_def parseData_emitted_def
                  parseData_outcome_def parseData_calls_def invoke_def
                  faulty_def decliner_def taker_def no_hooks_def)
  from c h3 have 3: "handleEntity_loop (processors faulty_engine) loc0 ent0 initial_state
     = Inr (ent0, initial_state
          \<lparr>newItems := [ErrorResult loc0 (Error (processEntity_threw faulty loc0 ''Error: r''))],
           calls := [CallProcessEntity ''Faulty'' ent0 loc0]\<rparr>)"
    by (simp add: f initial_state_sel processEntity_items_def processEntity_emitted_def
                  processEntity_outcome_def processEntity_calls_def transform_step_def
                  faulty_def decliner_def taker_def no_hooks_def)
  from c h4 have 4: "handleError_loop (processors faulty_engine) loc0 (Error ''x'') initial_state
     = Inr (initial_state
          \<lparr>newItems := [ErrorResult loc0 (Error (handleError_threw faulty loc0 ''Error: r''))],
           calls := [CallHandleError ''Faulty'' (Error ''x'') loc0]\<rparr>)"
    by (simp add: initial_state_sel handleError_items_def handleError_emitted_def
                  handleError_outcome_def handleError_calls_def
                  faulty_def decliner_def taker_def no_hooks_def)
  from c h6 have "entities (out (final (process_item faulty_engine (EntityResult loc0 ent0) initial_state)))
       = entities (out initial_state)
         @ [(foldl (\<lambda>c q. transform_step q loc0 c)
               (foldl (\<lambda>c q. transform_step q loc0 c) ent0 [decliner]) [taker], loc0)]"
    by blast
  then have 5: "entities (out (final (process_item faulty_engine (EntityResult loc0 ent0) initial_state)))
       = [(ent0, loc0)]"
    unfolding f g by (simp add: initial_state_sel del: process_item.simps)
  have h8: "read faulty_engine loc0 = Inr ?result
           \<and> 2 < length (rounds (final (read_run faulty_engine loc0)))
           \<and> EntityResult loc0 ent0 \<in> set (rounds (final (read_run faulty_engine loc0)) ! 2)"
    using faulty_rounds_third r by simp
  from c h6 h8 have "(foldl (\<lambda>c q. transform_step q loc0 c)
            (foldl (\<lambda>c q. transform_step q loc0 c) ent0 [decliner]) [taker], loc0)
           \<in> set (entities ?result)"
    by blast
  then have 8: "(ent0, loc0) \<in> set (entities ?result)"
    unfolding f g .
  from c h7 have 7: "(loc0, Error (readLocation_threw faulty loc0 ''Error: r''))
        \<in> set (errors ?result)"
    by blast
  from 1 2 3 4 5 6 7 8 r show ?thesis
    unfolding faulty_messages by simp
qed

text \<open>
  The claim as stated fails in that the affected item does not contribute only an error
  entry: an entity item whose pipeline faults still contributes its entity.
\<close>

theorem C6_faulting_item_still_yields_entity:
  "rounds (final (read_run middle_throws_engine loc0)) ! 1 = [EntityResult loc0 ent0]
   \<and> processEntity_outcome thrower (ent0\<lparr>kind := ''API''\<rparr>) loc0 = Some (Inl (Thrown ''Error: boom''))
   \<and> read middle_throws_engine loc0
     = Inr \<lparr>entities = [(\<lparr>apiVersion = ''v1'', kind = ''API'', payload = ''p+tag''\<rparr>, loc0)],
            errors = [(loc0, Error ''Processor Thrower threw an error while processing entity at file a, Error: boom'')]\<rparr>"
  by (simp add: middle_rounds middle_read processEntity_outcome_def thrower_def no_hooks_def)

subsection \<open>C7: a round that emits nothing ends the call\<close>

text \<open>
  C7. In every round, the last one the bound allows included, if processing all the
  items of the round returns and has emitted nothing, the loop returns at once with the
  state it has accumulated: the state before the round followed by what the round did.
  For a whole call this means: a round of the call that emits nothing is the last round,
  the call returns, and the returned entities and errors and the log are exactly what
  the rounds produced, with neither a recursion-limit error nor a warning added.
\<close>

theorem C7_no_new_work_returns:
  "(depth < MAX_DEPTH \<and> process_items this items initial_state = Inr effect
      \<and> newItems effect = [] \<longrightarrow>
      read_loop this loc depth items st
        = Inr (st_append (st\<lparr>newItems := [], rounds := rounds st @ [items]\<rparr>) effect))
   \<and> (N < length (rounds (final (read_run this loc)))
        \<and> process_items this (rounds (final (read_run this loc)) ! N) initial_state = Inr effect
        \<and> newItems effect = [] \<longrightarrow>
          length (rounds (final (read_run this loc))) = Suc N
          \<and> read this loc = Inr (out (final (read_run this loc)))
          \<and> entities (out (final (read_run this loc)))
              = concat (map (\<lambda>items. entities (out (final (process_items this items initial_state))))
                            (rounds (final (read_run this loc))))
          \<and> errors (out (final (read_run this loc)))
              = concat (map (\<lambda>items. errors (out (final (process_items this items initial_state))))
                            (rounds (final (read_run this loc))))
          \<and> logged (final (read_run this loc))
              = concat (map (\<lambda>items. logged (final (process_items this items initial_state)))
                            (rounds (final (read_run this loc)))))"
proof (intro conjI impI)
  assume "depth < MAX_DEPTH \<and> process_items this items initial_state = Inr effect
      \<and> newItems effect = []"
  then show "read_loop this loc depth items st
               = Inr (st_append (st\<lparr>newItems := [], rounds := rounds st @ [items]\<rparr>) effect)"
    by (simp add: read_loop_step continues_def emitted_def round_effect_def)
next
  assume a: "N < length (rounds (final (read_run this loc)))
        \<and> process_items this (rounds (final (read_run this loc)) ! N) initial_state = Inr effect
        \<and> newItems effect = []"
  then have n: "N < length (rounds (final (read_run this loc)))"
    and e: "round_effect this (rounds (final (read_run this loc)) ! N) = Inr effect"
    and z: "newItems effect = []"
    by (simp_all add: round_effect_def)
  note s = read_run_stops [OF n e z]
  show "length (rounds (final (read_run this loc))) = Suc N"
    by (rule s(1))
  show "read this loc = Inr (out (final (read_run this loc)))"
    using s(2) by (rule read_returned)
  show "entities (out (final (read_run this loc)))
              = concat (map (\<lambda>items. entities (out (final (process_items this items initial_state))))
                            (rounds (final (read_run this loc))))"
    using read_run_entities [of this loc] by (simp add: round_effect_def)
  show "errors (out (final (read_run this loc)))
              = concat (map (\<lambda>items. errors (out (final (process_items this items initial_state))))
                            (rounds (final (read_run this loc))))"
    using s(3) read_run_errors [of this loc] by (simp add: round_effect_def)
  show "logged (final (read_run this loc))
              = concat (map (\<lambda>items. logged (final (process_items this items initial_state)))
                            (rounds (final (read_run this loc))))"
    using s(3) read_run_logged [of this loc] by (simp add: round_effect_def)
qed

theorem C7_no_new_work_returns_witness:
  "read_loop idle_engine loc0 9 [ErrorResult loc0 (Error ''x'')] initial_state
       = Inr \<lparr>out = \<lparr>entities = [], errors = [(loc0, Error ''x'')]\<rparr>, newItems = [],
              logged = [Debug (encountered_error loc0 (Error ''x''))], calls = [],
              rounds = [[ErrorResult loc0 (Error ''x'')]]\<rparr>
   \<and> length (rounds (final (read_run idle_engine loc0))) = 2
   \<and> read idle_engine loc0
       = Inr \<lparr>entities = [], errors = [(loc0, InputError (no_processor_read loc0))]\<rparr>"
proof -
  let ?e1 = "\<lparr>out = \<lparr>entities = [], errors = [(loc0, Error ''x'')]\<rparr>, newItems = [],
              logged = [Debug (encountered_error loc0 (Error ''x''))], calls = [], rounds = []\<rparr>"
  let ?e2 = "\<lparr>out = \<lparr>entities = [], errors = [(loc0, InputError (no_processor_read loc0))]\<rparr>,
              newItems = [],
              logged = [Debug (encountered_error loc0 (InputError (no_processor_read loc0)))],
              calls = [], rounds = []\<rparr>"
  have h1: "9 < MAX_DEPTH
      \<and> process_items idle_engine [ErrorResult loc0 (Error ''x'')] initial_state = Inr ?e1
      \<and> newItems ?e1 = []"
    by (simp add: MAX_DEPTH_def idle_error_round del: process_items.simps)
  have h2: "1 < length (rounds (final (read_run idle_engine loc0)))
      \<and> process_items idle_engine (rounds (final (read_run idle_engine loc0)) ! 1) initial_state
          = Inr ?e2
      \<and> newItems ?e2 = []"
    by (simp add: idle_rounds idle_error_round del: process_items.simps)
  from C7_no_new_work_returns
         [of 9 idle_engine "[ErrorResult loc0 (Error ''x'')]" ?e1 loc0 initial_state]
       h1
  have 1: "read_loop idle_engine loc0 9 [ErrorResult loc0 (Error ''x'')] initial_state
       = Inr \<lparr>out = \<lparr>entities = [], errors = [(loc0, Error ''x'')]\<rparr>, newItems = [],
              logged = [Debug (encountered_error loc0 (Error ''x''))], calls = [],
              rounds = [[ErrorResult loc0 (Error ''x'')]]\<rparr>"
    by (simp add: st_append_def initial_state_def)
  note c = C7_no_new_work_returns [where this = idle_engine and loc = loc0 and N = 1 and effect = ?e2]
  from c h2 have 2: "length (rounds (final (read_run idle_engine loc0))) = 2"
    and r: "read idle_engine loc0 = Inr (out (final (read_run idle_engine loc0)))"
    and 3: "entities (out (final (read_run idle_engine loc0)))
              = concat (map (\<lambda>items. entities (out (final (process_items idle_engine items initial_state))))
                            (rounds (final (read_run idle_engine loc0))))"
    and 4: "errors (out (final (read_run idle_engine loc0)))
              = concat (map (\<lambda>items. errors (out (final (process_items idle_engine items initial_state))))
                            (rounds (final (read_run idle_engine loc0))))"
    by simp_all
  have e: "x = \<lparr>entities = entities x, errors = errors x\<rparr>" for x :: ReadLocationResult
    by simp
  have 5: "read idle_engine loc0
       = Inr \<lparr>entities = [], errors = [(loc0, InputError (no_processor_read loc0))]\<rparr>"
    unfolding r
    apply (subst e [of "out (final (read_run idle_engine loc0))"])
    apply (simp add: 3 4 idle_rounds idle_seed_round idle_error_round del: process_items.simps)
    done
  from 1 2 5 show ?thesis
    by simp
qed

subsection \<open>C8: what a round processes\<close>



subsection \<open>C9: a hook that throws has not handled the item\<close>



subsection \<open>C10: a faulting pipeline still yields its entity\<close>

text \<open>
  C10, as amended. When the \<^verbatim>\<open>processEntity\<close> hook of a processor \<open>p\<close> throws partway
  through the pipeline of an allowed entity (and what is thrown along the pipeline can
  be converted to a string), the fold goes on with the value the running entity had
  before \<open>p\<close> (the one produced by the last processor that did not throw), through the
  processors registered after \<open>p\<close>. The resulting entity is still appended to the
  output entities, and the wrapped processor fault is pushed to \<open>newItems\<close>. So, when
  the call returns, the entity is an entry of the returned entities; the
  processor-fault error is an entry of the returned errors as well whenever the round in
  which the item is processed is followed by another round.
\<close>

theorem C10_faulting_pipeline_keeps_entity:
  "processors this = pre @ p # post \<and> isAllowed this entity loc
     \<and> pipeline_ok (processors this) loc entity
     \<and> processEntity_outcome p (foldl (\<lambda>c q. transform_step q loc c) entity pre) loc
         = Some (Inl (Thrown thrown_text)) \<longrightarrow>
     returned_entity (handleEntity this loc entity st)
       = Some (foldl (\<lambda>c q. transform_step q loc c)
                 (foldl (\<lambda>c q. transform_step q loc c) entity pre) post)
     \<and> entities (out (final (process_item this (EntityResult loc entity) st)))
       = entities (out st)
         @ [(foldl (\<lambda>c q. transform_step q loc c) (foldl (\<lambda>c q. transform_step q loc c) entity pre) post,
             loc)]
     \<and> ErrorResult loc (Error (processEntity_threw p loc thrown_text))
         \<in> set (newItems (final (process_item this (EntityResult loc entity) st)))
     \<and> (read this start = Inr result
          \<and> N < length (rounds (final (read_run this start)))
          \<and> EntityResult loc entity \<in> set (rounds (final (read_run this start)) ! N) \<longrightarrow>
        (foldl (\<lambda>c q. transform_step q loc c) (foldl (\<lambda>c q. transform_step q loc c) entity pre) post,
         loc) \<in> set (entities result))
     \<and> (read this start = Inr result
          \<and> Suc N < length (rounds (final (read_run this start)))
          \<and> EntityResult loc entity \<in> set (rounds (final (read_run this start)) ! N) \<longrightarrow>
        (loc, Error (processEntity_threw p loc thrown_text)) \<in> set (errors result))"
proof (intro impI)
  let ?step = "\<lambda>c q. transform_step q loc c"
  let ?cur = "foldl ?step entity pre"
  assume a: "processors this = pre @ p # post \<and> isAllowed this entity loc
     \<and> pipeline_ok (processors this) loc entity
     \<and> processEntity_outcome p ?cur loc = Some (Inl (Thrown thrown_text))"
  then have chain: "processors this = pre @ p # post" and al: "isAllowed this entity loc"
    and ok: "pipeline_ok (processors this) loc entity"
    and thr: "processEntity_outcome p ?cur loc = Some (Inl (Thrown thrown_text))"
    by blast+
  have fold: "foldl ?step entity (processors this) = foldl ?step ?cur post"
    by (simp add: chain processEntity_items_thrown(3) [OF thr])
  have item: "ErrorResult loc (Error (processEntity_threw p loc thrown_text))
                \<in> set (pipeline_items (processors this) loc entity)"
    by (simp add: chain pipeline_items_append processEntity_items_thrown(1) [OF thr])
  note pe = process_allowed_entity [OF al ok]
  have 1: "returned_entity (handleEntity this loc entity st) = Some (foldl ?step ?cur post)"
    by (simp add: handleEntity_fold [OF ok] fold)
  have 2: "entities (out (final (process_item this (EntityResult loc entity) st)))
             = entities (out st) @ [(foldl ?step ?cur post, loc)]"
    unfolding pe by (simp add: fold)
  have 3: "ErrorResult loc (Error (processEntity_threw p loc thrown_text))
             \<in> set (newItems (final (process_item this (EntityResult loc entity) st)))"
    unfolding pe using item by simp
  have 4: "(foldl ?step ?cur post, loc) \<in> set (entities result)"
    if r: "read this start = Inr result
             \<and> N < length (rounds (final (read_run this start)))
             \<and> EntityResult loc entity \<in> set (rounds (final (read_run this start)) ! N)"
  proof -
    from r have ret: "returned (read_run this start)"
      and o: "result = out (final (read_run this start))"
      and n: "N < length (rounds (final (read_run this start)))"
      and m: "EntityResult loc entity \<in> set (rounds (final (read_run this start)) ! N)"
      by (simp_all add: read_result)
    have "(foldl ?step ?cur post, loc)
            \<in> set (entities (out (final (process_item this (EntityResult loc entity) initial_state))))"
      unfolding pe by (simp add: fold)
    with ret n m show ?thesis
      unfolding o by (rule read_entities_member)
  qed
  have 5: "(loc, Error (processEntity_threw p loc thrown_text)) \<in> set (errors result)"
    if r: "read this start = Inr result
             \<and> Suc N < length (rounds (final (read_run this start)))
             \<and> EntityResult loc entity \<in> set (rounds (final (read_run this start)) ! N)"
  proof -
    from r have ret: "returned (read_run this start)"
      and o: "result = out (final (read_run this start))"
      and sn: "Suc N < length (rounds (final (read_run this start)))"
      and m: "EntityResult loc entity \<in> set (rounds (final (read_run this start)) ! N)"
      by (simp_all add: read_result)
    have "ErrorResult loc (Error (processEntity_threw p loc thrown_text))
            \<in> set (newItems (final (process_item this (EntityResult loc entity) initial_state)))"
      unfolding pe using item by simp
    with ret sn m show ?thesis
      unfolding o by (rule read_emitted_error_member)
  qed
  from 1 2 3 4 5 show "returned_entity (handleEntity this loc entity st) = Some (foldl ?step ?cur post)
     \<and> entities (out (final (process_item this (EntityResult loc entity) st)))
       = entities (out st) @ [(foldl ?step ?cur post, loc)]
     \<and> ErrorResult loc (Error (processEntity_threw p loc thrown_text))
         \<in> set (newItems (final (process_item this (EntityResult loc entity) st)))
     \<and> (read this start = Inr result
          \<and> N < length (rounds (final (read_run this start)))
          \<and> EntityResult loc entity \<in> set (rounds (final (read_run this start)) ! N) \<longrightarrow>
        (foldl ?step ?cur post, loc) \<in> set (entities result))
     \<and> (read this start = Inr result
          \<and> Suc N < length (rounds (final (read_run this start)))
          \<and> EntityResult loc entity \<in> set (rounds (final (read_run this start)) ! N) \<longrightarrow>
        (loc, Error (processEntity_threw p loc thrown_text)) \<in> set (errors result))"
    by blast
qed

theorem C10_faulting_pipeline_keeps_entity_witness:
  "returned_entity (handleEntity middle_throws_engine loc0 ent0 initial_state)
     = Some \<lparr>apiVersion = ''v1'', kind = ''API'', payload = ''p+tag''\<rparr>
   \<and> read middle_throws_engine loc0 = Inr (out (final (read_run middle_throws_engine loc0)))
   \<and> (\<lparr>apiVersion = ''v1'', kind = ''API'', payload = ''p+tag''\<rparr>, loc0)
        \<in> set (entities (out (final (read_run middle_throws_engine loc0))))
   \<and> (loc0, Error ''Processor Thrower threw an error while processing entity at file a, Error: boom'')
        \<in> set (errors (out (final (read_run middle_throws_engine loc0))))"
proof -
  let ?result = "out (final (read_run middle_throws_engine loc0))"
  have r: "read middle_throws_engine loc0 = Inr ?result"
    using middle_returned by (rule read_returned)
  have c: "foldl (\<lambda>c q. transform_step q loc0 c) ent0 [emitter, renamer] = ent0\<lparr>kind := ''API''\<rparr>"
    by (simp add: transform_step_def pipeline_processors)
  have t: "foldl (\<lambda>c q. transform_step q loc0 c) (ent0\<lparr>kind := ''API''\<rparr>) [tagger]
             = \<lparr>apiVersion = ''v1'', kind = ''API'', payload = ''p+tag''\<rparr>"
    by (simp add: transform_step_def pipeline_processors ent0_def)
  have h1: "processors middle_throws_engine = [emitter, renamer] @ thrower # [tagger]
     \<and> isAllowed middle_throws_engine ent0 loc0
     \<and> pipeline_ok (processors middle_throws_engine) loc0 ent0
     \<and> processEntity_outcome thrower (foldl (\<lambda>c q. transform_step q loc0 c) ent0 [emitter, renamer]) loc0
         = Some (Inl (Thrown ''Error: boom''))"
    by (simp add: middle_throws_engine_def allow_all_def processEntity_outcome_def
                  transform_step_def pipeline_processors)
  have h2: "read middle_throws_engine loc0 = Inr ?result
          \<and> 1 < length (rounds (final (read_run middle_throws_engine loc0)))
          \<and> EntityResult loc0 ent0 \<in> set (rounds (final (read_run middle_throws_engine loc0)) ! 1)"
    using r by (simp add: middle_rounds)
  have h3: "read middle_throws_engine loc0 = Inr ?result
          \<and> Suc 1 < length (rounds (final (read_run middle_throws_engine loc0)))
          \<and> EntityResult loc0 ent0 \<in> set (rounds (final (read_run middle_throws_engine loc0)) ! 1)"
    using r by (simp add: middle_rounds)
  from C10_faulting_pipeline_keeps_entity
         [where this = middle_throws_engine and pre = "[emitter, renamer]" and p = thrower
            and post = "[tagger]" and entity = ent0 and loc = loc0
            and thrown_text = "''Error: boom''" and st = initial_state and N = 1 and start = loc0
            and result = ?result]
       h1 h2 h3
  have "returned_entity (handleEntity middle_throws_engine loc0 ent0 initial_state)
          = Some (foldl (\<lambda>c q. transform_step q loc0 c)
                    (foldl (\<lambda>c q. transform_step q loc0 c) ent0 [emitter, renamer]) [tagger])
     \<and> (foldl (\<lambda>c q. transform_step q loc0 c)
           (foldl (\<lambda>c q. transform_step q loc0 c) ent0 [emitter, renamer]) [tagger], loc0)
          \<in> set (entities ?result)
     \<and> (loc0, Error (processEntity_threw thrower loc0 ''Error: boom'')) \<in> set (errors ?result)"
    by blast
  with r show ?thesis
    unfolding c t processEntity_threw_example by simp
qed

text \<open>
  The claim as stated fails when the entity is processed in the tenth round: the
  pipeline faults, the entity is appended, the wrapped fault is emitted, and the call
  returns with the entity and the recursion-limit error only; the processor-fault error
  was a pending item and is not in the returned errors.
\<close>

theorem C10_fault_in_last_round_leaves_no_error:
  "rounds (final (read_run late_engine loc0)) ! 9
     = [EntityResult \<lparr>ltype = ''file'', target = ''aaaaaaaaa''\<rparr> ent0]
   \<and> processEntity_outcome thrower (ent0\<lparr>kind := ''API''\<rparr>) \<lparr>ltype = ''file'', target = ''aaaaaaaaa''\<rparr>
       = Some (Inl (Thrown ''Error: boom''))
   \<and> newItems (final (read_run late_engine loc0))
       = [ErrorResult \<lparr>ltype = ''file'', target = ''aaaaaaaaa''\<rparr>
            (Error ''Processor Thrower threw an error while processing entity at file aaaaaaaaa, Error: boom'')]
   \<and> read late_engine loc0
       = Inr \<lparr>entities = [(\<lparr>apiVersion = ''v1'', kind = ''API'', payload = ''p+tag''\<rparr>,
                           \<lparr>ltype = ''file'', target = ''aaaaaaaaa''\<rparr>)],
              errors = [(loc0, Error ''Max recursion depth 10 reached for file a'')]\<rparr>"
proof -
  have a: "rounds (final (read_run late_engine loc0)) ! 9
     = [EntityResult \<lparr>ltype = ''file'', target = ''aaaaaaaaa''\<rparr> ent0]"
    by (simp add: late_rounds)
  have b: "processEntity_outcome thrower (ent0\<lparr>kind := ''API''\<rparr>) \<lparr>ltype = ''file'', target = ''aaaaaaaaa''\<rparr>
       = Some (Inl (Thrown ''Error: boom''))"
    by (simp add: processEntity_outcome_def thrower_def no_hooks_def)
  have n: "newItems (final (read_run late_engine loc0))
       = [ErrorResult \<lparr>ltype = ''file'', target = ''aaaaaaaaa''\<rparr>
            (Error ''Processor Thrower threw an error while processing entity at file aaaaaaaaa, Error: boom'')]"
    by (simp add: read_run_newItems late_rounds emitted_def round_effect_def late_entity_round
                  processEntity_threw_def thrower_def no_hooks_def del: process_items.simps)
  have t: "returned (read_run late_engine loc0)"
    by (simp add: read_run_returned late_rounds round_effect_def late_entity_round
             del: process_items.simps)
  have e: "entities (out (final (read_run late_engine loc0)))
             = [(\<lparr>apiVersion = ''v1'', kind = ''API'', payload = ''p+tag''\<rparr>,
                 \<lparr>ltype = ''file'', target = ''aaaaaaaaa''\<rparr>)]"
    by (simp add: read_run_entities late_rounds round_effect_def late_round late_entity_round
             del: process_items.simps)
  have r: "errors (out (final (read_run late_engine loc0)))
             = [(loc0, Error ''Max recursion depth 10 reached for file a'')]"
    by (simp add: read_run_errors n t late_rounds round_effect_def late_round late_entity_round
                  max_depth_message_text loc0_sel del: process_items.simps)
  from a b n read_result_eq [OF t e r] show ?thesis
    by blast
qed

end
